theory Spec2Isabelle
  imports Complex_Main "HOL-Library.Sublist"
begin


text \<open>
  A model of the statistical query engine of the stroke data analysis: the helpers, the
  statistics and the queries of \<open>Task 1/query_module.py\<close>, and the loader of
  \<open>stroke_analysis_pca (Task 1)/dataset_module.py\<close>. Every function keeps the name it
  has in the source, without the leading underscore of a private helper.
\<close>

section \<open>Values, records and condition sets\<close>

text \<open>
  A cell of a loaded record is one of the four things the loader produces: Python's
  \<open>None\<close>, an \<open>int\<close> (unbounded), a \<open>float\<close> or a \<open>str\<close>. The type of floats is a
  parameter: the loader never computes with a float, it only stores what \<open>float()\<close>
  returned. In the records that the query module reads, a float cell is a finite double,
  given by its value, a real number (\<open>real pyval\<close>); the two zeros are one value, and
  cells that hold an infinity or a NaN are not represented.
\<close>

datatype 'f pyval = PNone | PInt int | PFloat 'f | PStr string

text \<open>
  A record is a Python \<open>dict\<close> from field names to cells, kept as an association list
  in insertion order. \<open>record.get(key)\<close> yields \<open>None\<close> for a key that is absent;
  \<open>d[key] = v\<close> replaces the value of a key that is present and appends a new key.
\<close>

type_synonym 'f pydict = "(string \<times> 'f pyval) list"

definition dict_get :: "'f pydict \<Rightarrow> string \<Rightarrow> 'f pyval" where
  "dict_get d k = (case map_of d k of None \<Rightarrow> PNone | Some v \<Rightarrow> v)"

fun dict_set :: "(string \<times> 'v) list \<Rightarrow> string \<Rightarrow> 'v \<Rightarrow> (string \<times> 'v) list" where
  "dict_set [] k v = [(k, v)]"
| "dict_set ((k', v') # d) k v = (if k' = k then (k', v) # d else (k', v') # dict_set d k v)"

text \<open>
  Python's \<open>==\<close> on cells: numbers compare by value whatever their type
  (\<open>1 == 1.0\<close>), strings by content, \<open>None\<close> equals only \<open>None\<close>, and values of
  different kinds are unequal.
\<close>

fun py_eq :: "real pyval \<Rightarrow> real pyval \<Rightarrow> bool" where
  "py_eq PNone PNone = True"
| "py_eq (PInt i) (PInt j) = (i = j)"
| "py_eq (PInt i) (PFloat y) = (real_of_int i = y)"
| "py_eq (PFloat x) (PInt j) = (x = real_of_int j)"
| "py_eq (PFloat x) (PFloat y) = (x = y)"
| "py_eq (PStr s) (PStr t) = (s = t)"
| "py_eq _ _ = False"

text \<open>The exceptions that the built-in operations used by the statistics can raise.\<close>

datatype py_error = ZeroDivisionError | IndexError | ValueError | TypeError | OverflowError

definition and_then :: "py_error + 'a \<Rightarrow> ('a \<Rightarrow> py_error + 'b) \<Rightarrow> py_error + 'b" where
  "and_then m f = (case m of Inl e \<Rightarrow> Inl e | Inr v \<Rightarrow> f v)"

text \<open>
  \<open>xs[i]\<close>: an index from \<open>-len(xs)\<close> to \<open>-1\<close> counts from the end, and an index
  outside \<open>-len(xs) .. len(xs) - 1\<close> raises.
\<close>

definition py_index :: "'a list \<Rightarrow> int \<Rightarrow> py_error + 'a" where
  "py_index xs i =
     (if 0 \<le> i \<and> i < int (length xs) then Inr (xs ! nat i)
      else if - int (length xs) \<le> i \<and> i < 0 then Inr (xs ! nat (int (length xs) + i))
      else Inl IndexError)"

text \<open>\<open>max\<close> of a list of values of one ordered type.\<close>

definition py_max :: "'a::linorder list \<Rightarrow> py_error + 'a" where
  "py_max xs = (case xs of [] \<Rightarrow> Inl ValueError | x # rest \<Rightarrow> Inr (fold max rest x))"

section \<open>Numbers\<close>

text \<open>
  \<open>round(x, 2)\<close> rounds the exact value of \<open>x\<close> to the nearest multiple of \<open>1/100\<close>,
  a tie going to the even neighbour; the same rule at the last binary digit is the
  rounding of every float operation.
\<close>

definition round_half_even :: "real \<Rightarrow> int" where
  "round_half_even y =
     (let f = \<lfloor>y\<rfloor>; d = y - real_of_int f
      in if d < 1 / 2 then f else if 1 / 2 < d then f + 1
         else if even f then f else f + 1)"

definition round2 :: "real \<Rightarrow> real" where
  "round2 x = real_of_int (round_half_even (x * 100)) / 100"

text \<open>
  A Python \<open>float\<close> is an IEEE 754 double: a finite value, an infinity or a NaN. A
  finite double is given by its value; the two zeros are one value. \<open>double_of x\<close> is
  the double that an operation with the exact result \<open>x\<close> delivers: \<open>x\<close> rounded to a
  multiple of its \<open>quantum\<close>, the unit of the last of 53 significant binary digits
  (\<open>2 ^ -1074\<close> for every \<open>x\<close> below \<open>2 ^ -1022\<close>), a tie going to the even neighbour,
  and an infinity when the rounded value reaches \<open>2 ^ 1024\<close>.
  The doubles are the reals \<open>x\<close> with \<open>double_of x = Fin x\<close>.
\<close>

datatype xfloat = Fin real | PosInf | NegInf | NaN

definition exponent :: "real \<Rightarrow> int" where
  "exponent x = max \<lfloor>log 2 \<bar>x\<bar>\<rfloor> (- 1022)"

definition quantum :: "real \<Rightarrow> real" where
  "quantum x = 2 powr real_of_int (exponent x - 52)"

definition round_double :: "real \<Rightarrow> real" where
  "round_double x =
     (if x = 0 then 0 else real_of_int (round_half_even (x / quantum x)) * quantum x)"

definition double_of :: "real \<Rightarrow> xfloat" where
  "double_of x =
     (let y = round_double x
      in if 2 ^ 1024 \<le> y then PosInf else if y \<le> - (2 ^ 1024) then NegInf else Fin y)"

definition is_double :: "real \<Rightarrow> bool" where
  "is_double x \<longleftrightarrow> double_of x = Fin x"

text \<open>
  The arithmetic of doubles: the exact result rounded, and the IEEE rules for the
  infinities and NaN. \<open>fdiv\<close> is only used with a divisor that is not zero: Python
  raises before it divides by zero.
\<close>

fun xsign :: "xfloat \<Rightarrow> real" where
  "xsign (Fin a) = sgn a"
| "xsign PosInf = 1"
| "xsign NegInf = - 1"
| "xsign NaN = 0"

fun fneg :: "xfloat \<Rightarrow> xfloat" where
  "fneg (Fin a) = Fin (- a)"
| "fneg PosInf = NegInf"
| "fneg NegInf = PosInf"
| "fneg NaN = NaN"

fun fadd :: "xfloat \<Rightarrow> xfloat \<Rightarrow> xfloat" where
  "fadd (Fin a) (Fin b) = double_of (a + b)"
| "fadd NaN y = NaN"
| "fadd x NaN = NaN"
| "fadd PosInf NegInf = NaN"
| "fadd NegInf PosInf = NaN"
| "fadd PosInf y = PosInf"
| "fadd NegInf y = NegInf"
| "fadd (Fin a) y = y"

fun fmul :: "xfloat \<Rightarrow> xfloat \<Rightarrow> xfloat" where
  "fmul (Fin a) (Fin b) = double_of (a * b)"
| "fmul NaN y = NaN"
| "fmul x NaN = NaN"
| "fmul x y = (if xsign x * xsign y = 0 then NaN
               else if 0 < xsign x * xsign y then PosInf else NegInf)"

fun fdiv :: "xfloat \<Rightarrow> xfloat \<Rightarrow> xfloat" where
  "fdiv (Fin a) (Fin b) = double_of (a / b)"
| "fdiv NaN y = NaN"
| "fdiv x NaN = NaN"
| "fdiv (Fin a) y = Fin 0"
| "fdiv x (Fin b) = (if 0 < xsign x * sgn b then PosInf else NegInf)"
| "fdiv x y = NaN"

text \<open>
  The numbers of a numeric sequence are the \<open>int\<close> and \<open>float\<close> cells of the records
  (\<open>number\<close>); the value of an arithmetic expression is an \<open>int\<close> or any float
  (\<open>pynum\<close>). An \<open>int\<close> is unbounded and its arithmetic is exact.
\<close>

datatype number = NInt int | NFloat real

datatype pynum = PyInt int | PyFloat xfloat

fun number_value :: "number \<Rightarrow> real" where
  "number_value (NInt i) = real_of_int i"
| "number_value (NFloat x) = x"

fun as_pynum :: "number \<Rightarrow> pynum" where
  "as_pynum (NInt i) = PyInt i"
| "as_pynum (NFloat x) = PyFloat (Fin x)"

text \<open>
  An operation on an \<open>int\<close> and a \<open>float\<close> first converts the \<open>int\<close> to the nearest
  double, and raises \<open>OverflowError\<close> when the \<open>int\<close> is too large for a double.
\<close>

definition int_to_double :: "int \<Rightarrow> py_error + xfloat" where
  "int_to_double i =
     (case double_of (real_of_int i) of Fin y \<Rightarrow> Inr (Fin y) | _ \<Rightarrow> Inl OverflowError)"

fun as_double :: "pynum \<Rightarrow> py_error + xfloat" where
  "as_double (PyInt i) = int_to_double i"
| "as_double (PyFloat x) = Inr x"

fun py_add :: "pynum \<Rightarrow> pynum \<Rightarrow> py_error + pynum" where
  "py_add (PyInt i) (PyInt j) = Inr (PyInt (i + j))"
| "py_add a b =
     and_then (as_double a) (\<lambda>x. and_then (as_double b) (\<lambda>y. Inr (PyFloat (fadd x y))))"

fun py_sub :: "pynum \<Rightarrow> pynum \<Rightarrow> py_error + pynum" where
  "py_sub (PyInt i) (PyInt j) = Inr (PyInt (i - j))"
| "py_sub a b =
     and_then (as_double a) (\<lambda>x. and_then (as_double b) (\<lambda>y.
       Inr (PyFloat (fadd x (fneg y)))))"

fun py_mul :: "pynum \<Rightarrow> pynum \<Rightarrow> py_error + pynum" where
  "py_mul (PyInt i) (PyInt j) = Inr (PyInt (i * j))"
| "py_mul a b =
     and_then (as_double a) (\<lambda>x. and_then (as_double b) (\<lambda>y. Inr (PyFloat (fmul x y))))"

text \<open>
  \<open>a / b\<close>: of two \<open>int\<close>s, the exact quotient rounded once to a double, with
  \<open>OverflowError\<close> when it is too large; otherwise the division of the two doubles. A
  zero divisor raises \<open>ZeroDivisionError\<close>.
\<close>

fun py_truediv :: "pynum \<Rightarrow> pynum \<Rightarrow> py_error + pynum" where
  "py_truediv (PyInt i) (PyInt j) =
     (if j = 0 then Inl ZeroDivisionError
      else case double_of (real_of_int i / real_of_int j) of
             Fin y \<Rightarrow> Inr (PyFloat (Fin y))
           | _ \<Rightarrow> Inl OverflowError)"
| "py_truediv a b =
     and_then (as_double a) (\<lambda>x. and_then (as_double b) (\<lambda>y.
       if y = Fin 0 then Inl ZeroDivisionError else Inr (PyFloat (fdiv x y))))"

text \<open>
  \<open>d ** 2\<close>: exact on an \<open>int\<close>; on a finite float the square rounded (the C library's
  \<open>pow\<close>, taken as correctly rounded), with \<open>OverflowError\<close> when it is out of range.
\<close>

fun py_square :: "pynum \<Rightarrow> py_error + pynum" where
  "py_square (PyInt i) = Inr (PyInt (i * i))"
| "py_square (PyFloat (Fin a)) =
     (case double_of (a * a) of Fin y \<Rightarrow> Inr (PyFloat (Fin y)) | _ \<Rightarrow> Inl OverflowError)"
| "py_square (PyFloat NaN) = Inr (PyFloat NaN)"
| "py_square (PyFloat x) = Inr (PyFloat PosInf)"

text \<open>\<open>math.sqrt(v)\<close>: it converts its argument to a double.\<close>

definition py_sqrt :: "pynum \<Rightarrow> py_error + pynum" where
  "py_sqrt v =
     and_then (as_double v) (\<lambda>x.
       case x of
         Fin a \<Rightarrow> if a < 0 then Inl ValueError else Inr (PyFloat (double_of (sqrt a)))
       | PosInf \<Rightarrow> Inr (PyFloat PosInf)
       | NegInf \<Rightarrow> Inl ValueError
       | NaN \<Rightarrow> Inr (PyFloat NaN))"

text \<open>
  \<open>round(x, 2)\<close>: an \<open>int\<close> is returned as it is; a finite float gives the double
  nearest to its value rounded to two decimal places; an infinity or a NaN is returned
  as it is.
\<close>

fun py_round2 :: "pynum \<Rightarrow> py_error + pynum" where
  "py_round2 (PyInt i) = Inr (PyInt i)"
| "py_round2 (PyFloat (Fin a)) =
     (case double_of (round2 a) of Fin y \<Rightarrow> Inr (PyFloat (Fin y)) | _ \<Rightarrow> Inl OverflowError)"
| "py_round2 (PyFloat x) = Inr (PyFloat x)"

text \<open>\<open>math.floor(k)\<close>, \<open>math.ceil(k)\<close> and \<open>int(k)\<close>, which truncates towards zero.\<close>

fun py_floor :: "pynum \<Rightarrow> py_error + int" where
  "py_floor (PyInt i) = Inr i"
| "py_floor (PyFloat (Fin a)) = Inr \<lfloor>a\<rfloor>"
| "py_floor (PyFloat NaN) = Inl ValueError"
| "py_floor (PyFloat x) = Inl OverflowError"

fun py_ceil :: "pynum \<Rightarrow> py_error + int" where
  "py_ceil (PyInt i) = Inr i"
| "py_ceil (PyFloat (Fin a)) = Inr \<lceil>a\<rceil>"
| "py_ceil (PyFloat NaN) = Inl ValueError"
| "py_ceil (PyFloat x) = Inl OverflowError"

fun py_trunc :: "pynum \<Rightarrow> py_error + int" where
  "py_trunc (PyInt i) = Inr i"
| "py_trunc (PyFloat (Fin a)) = Inr (if 0 \<le> a then \<lfloor>a\<rfloor> else \<lceil>a\<rceil>)"
| "py_trunc (PyFloat NaN) = Inl ValueError"
| "py_trunc (PyFloat x) = Inl OverflowError"

text \<open>
  What the model leaves to the interpreter. \<open>float_sum items\<close> is the float that the
  built-in \<open>sum\<close> accumulates over items of which at least one is a float: the
  accumulation is a plain left-to-right addition in some versions of the interpreter
  and a compensated one in others. \<open>float_str x\<close> is \<open>str(x)\<close> of a float.
\<close>

record interpreter =
  float_sum :: "pynum list \<Rightarrow> xfloat"
  float_str :: "real \<Rightarrow> string"

text \<open>
  \<open>sum(items)\<close>. The \<open>int\<close>s before the first float are added exactly. At the first
  float their sum is converted to a double, and so is every \<open>int\<close> that comes later;
  a conversion that overflows raises. The additions of floats never raise.
\<close>

fun is_int :: "pynum \<Rightarrow> bool" where
  "is_int (PyInt i) = True"
| "is_int (PyFloat x) = False"

fun int_of :: "pynum \<Rightarrow> int" where
  "int_of (PyInt i) = i"
| "int_of (PyFloat x) = 0"

fun all_as_double :: "pynum list \<Rightarrow> py_error + xfloat list" where
  "all_as_double [] = Inr []"
| "all_as_double (x # xs) =
     and_then (as_double x) (\<lambda>d. and_then (all_as_double xs) (\<lambda>ds. Inr (d # ds)))"

definition py_sum :: "interpreter \<Rightarrow> pynum list \<Rightarrow> py_error + pynum" where
  "py_sum py items =
     (let ints = sum_list (map int_of (takeWhile is_int items));
          rest = dropWhile is_int items
      in if rest = [] then Inr (PyInt ints)
         else and_then (int_to_double ints) (\<lambda>start.
              and_then (all_as_double rest) (\<lambda>floats.
                Inr (PyFloat (float_sum py items)))))"

text \<open>
  \<open>min(xs)\<close> and \<open>max(xs)\<close> of numbers: the first of the smallest, and the first of
  the largest.
\<close>

definition number_min :: "number list \<Rightarrow> py_error + number" where
  "number_min xs =
     (case xs of [] \<Rightarrow> Inl ValueError
      | x # rest \<Rightarrow>
          Inr (fold (\<lambda>y m. if number_value y < number_value m then y else m) rest x))"

definition number_max :: "number list \<Rightarrow> py_error + number" where
  "number_max xs =
     (case xs of [] \<Rightarrow> Inl ValueError
      | x # rest \<Rightarrow>
          Inr (fold (\<lambda>y m. if number_value m < number_value y then y else m) rest x))"

text \<open>
  The value of a finite number, for the comparisons of the theorems. It is used
  together with \<open>is_finite\<close> only.
\<close>

fun is_finite :: "pynum \<Rightarrow> bool" where
  "is_finite (PyInt i) = True"
| "is_finite (PyFloat (Fin a)) = True"
| "is_finite (PyFloat x) = False"

fun pynum_value :: "pynum \<Rightarrow> real" where
  "pynum_value (PyInt i) = real_of_int i"
| "pynum_value (PyFloat (Fin a)) = a"
| "pynum_value (PyFloat x) = 0"

section \<open>Filtering and extraction\<close>

text \<open>
  \<open>_filter_data(data, conditions)\<close>. The condition set is \<open>None\<close> or a dict; both
  \<open>None\<close> and the empty dict are falsy, and then \<open>data\<close> itself is returned.
  Otherwise the records for which every condition holds are appended, in order, to a
  fresh list.
\<close>

definition falsy_conditions :: "real pydict option \<Rightarrow> bool" where
  "falsy_conditions conditions = (case conditions of None \<Rightarrow> True | Some c \<Rightarrow> c = [])"

definition matches :: "real pydict \<Rightarrow> real pydict \<Rightarrow> bool" where
  "matches c record = list_all (\<lambda>(key, val). py_eq (dict_get record key) val) c"

definition filter_data :: "real pydict list \<Rightarrow> real pydict option \<Rightarrow> real pydict list" where
  "filter_data data conditions =
     (if falsy_conditions conditions then data
      else fold (\<lambda>record filtered.
                   if matches (case conditions of Some c \<Rightarrow> c | None \<Rightarrow> []) record
                   then filtered @ [record] else filtered) data [])"

text \<open>
  \<open>_get_numeric_values(data, feature, conditions=None)\<close>: the values of \<open>feature\<close>
  that are an \<open>int\<close> or a \<open>float\<close>, in the order of the records.
\<close>

definition get_numeric_values ::
  "real pydict list \<Rightarrow> string \<Rightarrow> real pydict option \<Rightarrow> number list" where
  "get_numeric_values data feature conditions =
     fold (\<lambda>record values.
             case dict_get record feature of
               PInt i \<Rightarrow> values @ [NInt i]
             | PFloat x \<Rightarrow> values @ [NFloat x]
             | _ \<Rightarrow> values)
          (if \<not> falsy_conditions conditions then filter_data data conditions else data) []"

section \<open>Statistics primitives\<close>

text \<open>
  Each primitive returns \<open>Inr None\<close> for Python's \<open>None\<close>, \<open>Inr (Some v)\<close> for a
  number and \<open>Inl e\<close> where a built-in operation raises \<open>e\<close>. \<open>sorted\<close> orders the
  numbers by their values and keeps the order of equal ones.
\<close>

definition calculate_mean :: "interpreter \<Rightarrow> number list \<Rightarrow> py_error + pynum option" where
  "calculate_mean py numbers =
     (if numbers \<noteq> []
      then and_then (py_sum py (map as_pynum numbers)) (\<lambda>total.
           and_then (py_truediv total (PyInt (int (length numbers)))) (\<lambda>q.
           and_then (py_round2 q) (\<lambda>r. Inr (Some r))))
      else Inr None)"

definition calculate_median :: "number list \<Rightarrow> py_error + pynum option" where
  "calculate_median numbers0 =
     (if numbers0 = [] then Inr None
      else
        let numbers = sort_key number_value numbers0;
            mid = int (length numbers) div 2
        in if int (length numbers) mod 2 = 0
           then and_then (py_index numbers (mid - 1)) (\<lambda>a.
                and_then (py_index numbers mid) (\<lambda>b.
                and_then (py_add (as_pynum a) (as_pynum b)) (\<lambda>s.
                and_then (py_truediv s (PyInt 2)) (\<lambda>q.
                and_then (py_round2 q) (\<lambda>r. Inr (Some r))))))
           else and_then (py_index numbers mid) (\<lambda>a.
                and_then (py_round2 (as_pynum a)) (\<lambda>r. Inr (Some r))))"

text \<open>
  \<open>Counter(valid_items)\<close>: the distinct items in the order of their first occurrence,
  each with the number of its occurrences. The items of \<open>_calculate_mode\<close> are of one
  ordered type, with \<open>None\<close> entries among them; a list that mixes strings and numbers,
  which \<open>sorted\<close> rejects, is outside the model. \<open>sorted\<close> is the stable \<open>sort\<close>.
\<close>

fun count_add :: "('a \<times> nat) list \<Rightarrow> 'a \<Rightarrow> ('a \<times> nat) list" where
  "count_add [] x = [(x, 1)]"
| "count_add ((y, n) # c) x = (if y = x then (y, n + 1) # c else (y, n) # count_add c x)"

definition Counter :: "'a list \<Rightarrow> ('a \<times> nat) list" where
  "Counter xs = fold (\<lambda>x c. count_add c x) xs []"

definition calculate_mode :: "'a::linorder option list \<Rightarrow> py_error + 'a list" where
  "calculate_mode items =
     (let valid_items = [item. Some item \<leftarrow> items]
      in if valid_items = [] then Inr []
         else
           let counts = Counter valid_items
           in and_then (py_max (map snd counts)) (\<lambda>max_count.
                Inr (sort [item. (item, count) \<leftarrow> counts, count = max_count])))"

text \<open>
  The terms \<open>(x - mean_val) ** 2\<close> of the variance, in the order of the numbers. The
  generator hands them to \<open>sum\<close> one at a time; the subtraction, the square and the
  additions of \<open>sum\<close> raise nothing but \<open>OverflowError\<close>, so that the result is the same
  when all the terms are computed first.
\<close>

fun squared_deviations :: "pynum \<Rightarrow> number list \<Rightarrow> py_error + pynum list" where
  "squared_deviations mean_val [] = Inr []"
| "squared_deviations mean_val (x # xs) =
     and_then (py_sub (as_pynum x) mean_val) (\<lambda>d.
     and_then (py_square d) (\<lambda>t.
     and_then (squared_deviations mean_val xs) (\<lambda>ts. Inr (t # ts))))"

definition calculate_std_dev ::
  "interpreter \<Rightarrow> number list \<Rightarrow> pynum option \<Rightarrow> py_error + pynum option" where
  "calculate_std_dev py numbers mean_val0 =
     (if numbers = [] \<or> length numbers < 2 then Inr None
      else
        and_then (case mean_val0 of Some m \<Rightarrow> Inr (Some m)
                  | None \<Rightarrow> calculate_mean py numbers)
          (\<lambda>mean_val. case mean_val of
             None \<Rightarrow> Inl TypeError
           | Some m \<Rightarrow>
               and_then (squared_deviations m numbers) (\<lambda>terms.
               and_then (py_sum py terms) (\<lambda>total.
               and_then (py_truediv total (PyInt (int (length numbers) - 1))) (\<lambda>variance.
               and_then (py_sqrt variance) (\<lambda>root.
               and_then (py_round2 root) (\<lambda>r. Inr (Some r))))))))"

definition calculate_percentile :: "number list \<Rightarrow> number \<Rightarrow> py_error + pynum option" where
  "calculate_percentile numbers0 percentile =
     (if numbers0 = [] \<or> \<not> (0 \<le> number_value percentile \<and> number_value percentile \<le> 100)
      then Inr None
      else
        let numbers = sort_key number_value numbers0
        in and_then (py_truediv (as_pynum percentile) (PyInt 100)) (\<lambda>fraction.
           and_then (py_mul (PyInt (int (length numbers) - 1)) fraction) (\<lambda>k.
           and_then (py_floor k) (\<lambda>f.
           and_then (py_ceil k) (\<lambda>c.
             if f = c
             then and_then (py_trunc k) (\<lambda>i.
                  and_then (py_index numbers i) (\<lambda>a.
                  and_then (py_round2 (as_pynum a)) (\<lambda>r. Inr (Some r))))
             else and_then (py_index numbers f) (\<lambda>a.
                  and_then (py_sub (PyInt c) k) (\<lambda>wa.
                  and_then (py_mul (as_pynum a) wa) (\<lambda>lower.
                  and_then (py_index numbers c) (\<lambda>b.
                  and_then (py_sub k (PyInt f)) (\<lambda>wb.
                  and_then (py_mul (as_pynum b) wb) (\<lambda>upper.
                  and_then (py_add lower upper) (\<lambda>v.
                  and_then (py_round2 v) (\<lambda>r. Inr (Some r))))))))))))))"

section \<open>Results and their export\<close>

text \<open>
  What a query returns: a cell (a string, a number, \<open>None\<close>), a list or a dict with
  string keys in insertion order. A number computed by a statistic is an \<open>int\<close> or any
  float.
\<close>

datatype pyobj = Atom "xfloat pyval" | PList "pyobj list" | PDict "(string \<times> pyobj) list"

definition num_obj :: "pynum option \<Rightarrow> pyobj" where
  "num_obj v =
     (case v of None \<Rightarrow> Atom PNone
      | Some (PyInt i) \<Rightarrow> Atom (PInt i)
      | Some (PyFloat x) \<Rightarrow> Atom (PFloat x))"

fun number_obj :: "number \<Rightarrow> pyobj" where
  "number_obj (NInt i) = Atom (PInt i)"
| "number_obj (NFloat x) = Atom (PFloat (Fin x))"

text \<open>\<open>'message' in result\<close>, as the user interface asks of a dict.\<close>

fun has_key :: "pyobj \<Rightarrow> string \<Rightarrow> bool" where
  "has_key (PDict d) k = (k \<in> fst ` set d)"
| "has_key _ k = False"

text \<open>
  \<open>save_results_csv(data_to_save, filename)\<close> writes one file and catches every
  exception of the writing. The model keeps the sequence of these calls: the file name
  (with \<open>.csv\<close> appended unless the name ends with it, whatever the case of the
  letters) and the structure handed over. The text written is not modelled.
\<close>

definition lower_char :: "char \<Rightarrow> char" where
  "lower_char c =
     (let n = (of_char c :: nat) in if 65 \<le> n \<and> n \<le> 90 then char_of (n + 32) else c)"

type_synonym exports = "(string \<times> pyobj) list"

definition save_results_csv :: "pyobj \<Rightarrow> string \<Rightarrow> exports \<Rightarrow> exports" where
  "save_results_csv data_to_save filename files =
     files @ [(if suffix ''.csv'' (map lower_char filename) then filename
               else filename @ ''.csv'', data_to_save)]"

text \<open>
  The common end of a query: \<open>save_results_csv(result, name); return result\<close>. An
  exception raised while the result was computed leaves the function before the export.
\<close>

definition save_and_return ::
  "py_error + pyobj \<Rightarrow> string \<Rightarrow> exports \<Rightarrow> (py_error + pyobj) \<times> exports" where
  "save_and_return result filename files =
     (case result of
        Inl e \<Rightarrow> (Inl e, files)
      | Inr r \<Rightarrow> (Inr r, save_results_csv r filename files))"

section \<open>The queries over a numeric sequence\<close>

text \<open>
  \<open>_calculate_mode\<close> of a numeric sequence. The keys of the \<open>Counter\<close> are the values:
  numbers that are equal (\<open>1\<close> and \<open>1.0\<close>) are one key, and the key is the number that
  came first.
\<close>

definition modal_values :: "number list \<Rightarrow> py_error + number list" where
  "modal_values xs =
     and_then (calculate_mode (map (\<lambda>x. Some (number_value x)) xs)) (\<lambda>vs.
       Inr (map (\<lambda>v. case find (\<lambda>x. number_value x = v) xs of
                        Some x \<Rightarrow> x | None \<Rightarrow> NFloat v) vs))"

text \<open>
  The entries \<open>count\<close>, \<open>average_age\<close>, \<open>median_age\<close> and \<open>modal_age\<close> that the
  age dictionaries of queries i to v have in common, in the order of the dict display.
\<close>

definition age_entries :: "interpreter \<Rightarrow> number list \<Rightarrow> py_error + (string \<times> pyobj) list" where
  "age_entries py ages =
     and_then (calculate_mean py ages) (\<lambda>average_age.
     and_then (calculate_median ages) (\<lambda>median_age.
     and_then (modal_values ages) (\<lambda>modal_age.
       Inr [(''count'', Atom (PInt (int (length ages)))),
            (''average_age'', num_obj average_age),
            (''median_age'', num_obj median_age),
            (''modal_age'', PList (map number_obj modal_age))])))"

definition smokers_ages :: "real pydict list \<Rightarrow> number list" where
  "smokers_ages data =
     fold (\<lambda>status ages. ages @ get_numeric_values data ''Age''
             (Some [(''Hypertension'', PInt 1), (''Stroke Occurrence'', PInt 1),
                    (''Smoking Status'', PStr status)]))
          [''Formerly smoked'', ''smokes''] []"

definition query_smokers_hypertension_stroke ::
  "interpreter \<Rightarrow> real pydict list \<Rightarrow> exports \<Rightarrow> (py_error + pyobj) \<times> exports" where
  "query_smokers_hypertension_stroke py data files =
     (let ages = smokers_ages data
      in save_and_return
           (if ages = []
            then Inr (PDict [(''message'', Atom (PStr
                   ''No data found for smokers with hypertension who had a stroke''))])
            else and_then (age_entries py ages) (\<lambda>entries.
                   Inr (PDict ((''description'', Atom (PStr
                     ''Smokers with hypertension who had a stroke'')) # entries))))
           ''smokers_hypertension_stroke.csv'' files)"

definition query_heart_disease_stroke ::
  "interpreter \<Rightarrow> real pydict list \<Rightarrow> exports \<Rightarrow> (py_error + pyobj) \<times> exports" where
  "query_heart_disease_stroke py data files =
     (let conditions = Some [(''Heart Disease'', PInt 1), (''Stroke Occurrence'', PInt 1)];
          ages = get_numeric_values data ''Age'' conditions;
          glucose_levels = get_numeric_values data ''Average Glucose Level'' conditions
      in save_and_return
           (if ages = []
            then Inr (PDict [(''message'', Atom (PStr
                   ''No data found for patients with heart disease who had a stroke''))])
            else and_then (age_entries py ages) (\<lambda>entries.
                 and_then (calculate_mean py glucose_levels) (\<lambda>average_glucose_level.
                   Inr (PDict ((''description'', Atom (PStr
                     ''Heart disease patients who had a stroke'')) # entries @
                     [(''average_glucose_level'', num_obj average_glucose_level)])))))
           ''heart_disease_stroke_stats.csv'' files)"

text \<open>
  Queries iii, iv and v fill the dict \<open>results\<close> group by group: \<open>fill f groups\<close>
  runs \<open>results[key] = entry\<close> for the key and the entry that \<open>f\<close> computes of each
  group in turn. The value stored for a group is an age dictionary when the group has
  ages, and a count of zero with a message when it has none.
\<close>

fun fill ::
  "('g \<Rightarrow> py_error + string \<times> pyobj) \<Rightarrow> 'g list \<Rightarrow> (string \<times> pyobj) list
     \<Rightarrow> py_error + (string \<times> pyobj) list"
where
  "fill f [] results = Inr results"
| "fill f (g # groups) results =
     and_then (f g) (\<lambda>(key, entry). fill f groups (dict_set results key entry))"

text \<open>
  The truth value of a cell, its \<open>str()\<close> as an f-string inserts it, and the set of
  the values of a list. A Python set holds one of several equal values and iterates in
  an order that the language leaves open; the model iterates in the order of first
  occurrence, and the theorems about the queries hold for every order.
\<close>

fun truthy :: "real pyval \<Rightarrow> bool" where
  "truthy PNone = False"
| "truthy (PInt i) = (i \<noteq> 0)"
| "truthy (PFloat x) = (x \<noteq> 0)"
| "truthy (PStr s) = (s \<noteq> [])"

fun str_nat :: "nat \<Rightarrow> string" where
  "str_nat n = (if n < 10 then [char_of (48 + n)]
                else str_nat (n div 10) @ [char_of (48 + n mod 10)])"

definition str_int :: "int \<Rightarrow> string" where
  "str_int i = (if i < 0 then CHR ''-'' # str_nat (nat (- i)) else str_nat (nat i))"

fun py_str :: "interpreter \<Rightarrow> real pyval \<Rightarrow> string" where
  "py_str py PNone = ''None''"
| "py_str py (PInt i) = str_int i"
| "py_str py (PFloat x) = float_str py x"
| "py_str py (PStr s) = s"

definition py_set :: "real pyval list \<Rightarrow> real pyval list" where
  "py_set vs = fold (\<lambda>v seen. if list_ex (py_eq v) seen then seen else seen @ [v]) vs []"

text \<open>The dict stored for one group of queries iii and iv.\<close>

definition group_entry :: "interpreter \<Rightarrow> number list \<Rightarrow> py_error + pyobj" where
  "group_entry py ages =
     (if ages \<noteq> []
      then and_then (age_entries py ages) (\<lambda>entries. Inr (PDict entries))
      else Inr (PDict [(''count'', Atom (PInt 0)), (''message'', Atom (PStr ''No data''))]))"

definition stroke_labels :: "(int \<times> string) list" where
  "stroke_labels = [(1, ''Stroke''), (0, ''NoStroke'')]"

definition genders_of :: "real pydict list \<Rightarrow> real pyval list" where
  "genders_of data =
     py_set [dict_get r ''Gender''. r \<leftarrow> data,
             truthy (dict_get r ''Gender'') \<and> \<not> py_eq (dict_get r ''Gender'') (PStr ''Other'')]"

definition gender_ages :: "real pydict list \<Rightarrow> real pyval \<Rightarrow> int \<Rightarrow> number list" where
  "gender_ages data gender stroke_status =
     get_numeric_values data ''Age''
       (Some [(''Hypertension'', PInt 1), (''Stroke Occurrence'', PInt stroke_status),
              (''Gender'', gender)])"

definition query_hypertension_gender_stroke ::
  "interpreter \<Rightarrow> real pydict list \<Rightarrow> exports \<Rightarrow> (py_error + pyobj) \<times> exports" where
  "query_hypertension_gender_stroke py data files =
     save_and_return
       (and_then
          (fill (\<lambda>(gender, stroke_status, label).
                   and_then (group_entry py (gender_ages data gender stroke_status)) (\<lambda>entry.
                     Inr (py_str py gender @ ''_Hypertension_'' @ label, entry)))
                [(gender, stroke_status, label). gender \<leftarrow> genders_of data,
                   (stroke_status, label) \<leftarrow> stroke_labels] [])
          (\<lambda>results. Inr (PDict results)))
       ''hypertension_gender_stroke.csv'' files"

definition smoking_statuses_of :: "real pydict list \<Rightarrow> real pyval list" where
  "smoking_statuses_of data =
     py_set [dict_get r ''Smoking Status''. r \<leftarrow> data, truthy (dict_get r ''Smoking Status'')]"

definition smoking_ages :: "real pydict list \<Rightarrow> real pyval \<Rightarrow> int \<Rightarrow> number list" where
  "smoking_ages data status stroke_status =
     get_numeric_values data ''Age''
       (Some [(''Smoking Status'', status), (''Stroke Occurrence'', PInt stroke_status)])"

definition query_smoking_stroke ::
  "interpreter \<Rightarrow> real pydict list \<Rightarrow> exports \<Rightarrow> (py_error + pyobj) \<times> exports" where
  "query_smoking_stroke py data files =
     save_and_return
       (and_then
          (fill (\<lambda>(status, stroke_status, label).
                   and_then (group_entry py (smoking_ages data status stroke_status)) (\<lambda>entry.
                     Inr (py_str py status @ ''_'' @ label, entry)))
                [(status, stroke_status, label). status \<leftarrow> smoking_statuses_of data,
                   (stroke_status, label) \<leftarrow> stroke_labels] [])
          (\<lambda>results. Inr (PDict results)))
       ''smoking_stroke.csv'' files"

definition residence_ages :: "real pydict list \<Rightarrow> string \<Rightarrow> number list" where
  "residence_ages data residence =
     get_numeric_values data ''Age''
       (Some [(''Residence Type'', PStr residence), (''Stroke Occurrence'', PInt 1)])"

definition residence_entry ::
  "interpreter \<Rightarrow> real pydict list \<Rightarrow> string \<Rightarrow> py_error + pyobj" where
  "residence_entry py data residence =
     (let ages = residence_ages data residence
      in if ages \<noteq> []
         then and_then (age_entries py ages) (\<lambda>entries.
                Inr (PDict ((''description'', Atom (PStr (residence @ '' residents with stroke'')))
                            # entries)))
         else Inr (PDict [(''count'', Atom (PInt 0)),
                          (''message'', Atom (PStr (''No data for '' @ residence)))]))"

definition query_residence_stroke ::
  "interpreter \<Rightarrow> real pydict list \<Rightarrow> exports \<Rightarrow> (py_error + pyobj) \<times> exports" where
  "query_residence_stroke py data files =
     save_and_return
       (and_then
          (fill (\<lambda>residence.
                   and_then (residence_entry py data residence) (\<lambda>entry. Inr (residence, entry)))
                [''Urban'', ''Rural''] [])
          (\<lambda>results. Inr (PDict results)))
       ''residence_stroke.csv'' files"

text \<open>
  \<open>round(min(xs), 2)\<close> and \<open>round(max(xs), 2)\<close>, as queries x and xi report the
  smallest and the largest number.
\<close>

definition rounded_min :: "number list \<Rightarrow> py_error + pynum" where
  "rounded_min xs = and_then (number_min xs) (\<lambda>lo. py_round2 (as_pynum lo))"

definition rounded_max :: "number list \<Rightarrow> py_error + pynum" where
  "rounded_max xs = and_then (number_max xs) (\<lambda>hi. py_round2 (as_pynum hi))"

text \<open>Query x, with its two early returns.\<close>

definition query_descriptive_statistics ::
  "interpreter \<Rightarrow> real pydict list \<Rightarrow> string \<Rightarrow> string list \<Rightarrow> exports
     \<Rightarrow> (py_error + pyobj) \<times> exports"
where
  "query_descriptive_statistics py data feature_name header files =
     (if feature_name \<notin> set header
      then (Inr (Atom (PStr (''Error: Feature '' @ [CHR 0x27] @ feature_name @ [CHR 0x27]
                             @ '' not found.''))), files)
      else
        let numbers = get_numeric_values data feature_name None
        in if numbers = []
           then save_and_return
                  (Inr (Atom (PStr (''Error: No valid numeric data for '' @ [CHR 0x27]
                                    @ feature_name @ [CHR 0x27] @ ''.''))))
                  (''descriptive_stats_'' @ feature_name @ ''.csv'') files
           else save_and_return
                  (and_then (calculate_mean py numbers) (\<lambda>mean.
                   and_then (calculate_std_dev py numbers None) (\<lambda>std_dev.
                   and_then (rounded_min numbers) (\<lambda>lo.
                   and_then (calculate_percentile numbers (NInt 25)) (\<lambda>p25.
                   and_then (calculate_median numbers) (\<lambda>median.
                   and_then (calculate_percentile numbers (NInt 75)) (\<lambda>p75.
                   and_then (rounded_max numbers) (\<lambda>hi.
                     Inr (PDict [(''feature'', Atom (PStr feature_name)),
                                 (''count'', Atom (PInt (int (length numbers)))),
                                 (''mean'', num_obj mean),
                                 (''std_dev'', num_obj std_dev),
                                 (''min'', num_obj (Some lo)),
                                 (''25%'', num_obj p25),
                                 (''50% (median)'', num_obj median),
                                 (''75%'', num_obj p75),
                                 (''max'', num_obj (Some hi))])))))))))
                  (''descriptive_stats_'' @ feature_name @ ''.csv'') files)"

text \<open>
  Query xi. The dict display is the same for the two groups; \<open>sleep_stats\<close> is that
  display over the sleep hours of one group.
\<close>

definition sleep_stats :: "interpreter \<Rightarrow> number list \<Rightarrow> py_error + pyobj" where
  "sleep_stats py sleep =
     and_then (calculate_mean py sleep) (\<lambda>mean.
     and_then (calculate_median sleep) (\<lambda>median.
     and_then (modal_values sleep) (\<lambda>mode.
     and_then (calculate_std_dev py sleep None) (\<lambda>std_dev.
     and_then (if sleep \<noteq> [] then and_then (rounded_min sleep) (\<lambda>lo. Inr (Some lo))
               else Inr None) (\<lambda>lo.
     and_then (calculate_percentile sleep (NInt 25)) (\<lambda>p25.
     and_then (calculate_percentile sleep (NInt 75)) (\<lambda>p75.
     and_then (if sleep \<noteq> [] then and_then (rounded_max sleep) (\<lambda>hi. Inr (Some hi))
               else Inr None) (\<lambda>hi.
       Inr (PDict [(''count'', Atom (PInt (int (length sleep)))),
                   (''mean'', num_obj mean),
                   (''median'', num_obj median),
                   (''mode'', PList (map number_obj mode)),
                   (''std_dev'', num_obj std_dev),
                   (''min'', num_obj lo),
                   (''25%'', num_obj p25),
                   (''75%'', num_obj p75),
                   (''max'', num_obj hi)])))))))))"

definition query_average_sleep_hours_stroke ::
  "interpreter \<Rightarrow> real pydict list \<Rightarrow> exports \<Rightarrow> (py_error + pyobj) \<times> exports" where
  "query_average_sleep_hours_stroke py data files =
     (let sleep_stroke = get_numeric_values data ''Sleep Hours''
                           (Some [(''Stroke Occurrence'', PInt 1)]);
          sleep_no_stroke = get_numeric_values data ''Sleep Hours''
                              (Some [(''Stroke Occurrence'', PInt 0)])
      in save_and_return
           (and_then (sleep_stats py sleep_stroke) (\<lambda>stroke.
            and_then (sleep_stats py sleep_no_stroke) (\<lambda>no_stroke.
              Inr (PDict [(''stroke'', stroke), (''no_stroke'', no_stroke)]))))
           ''average_sleep_hours_stroke.csv'' files)"

section \<open>The interpolated value of a sorted list\<close>

text \<open>
  The linear interpolation method in one formula: the value of the list \<open>s\<close> at the
  fractional rank \<open>k\<close> is the element at \<open>\<lfloor>k\<rfloor>\<close> plus the fraction \<open>k - \<lfloor>k\<rfloor>\<close> of
  the step to the element at \<open>\<lceil>k\<rceil>\<close>. It is the element itself when \<open>k\<close> is an index.
  The theorems about \<open>calculate_percentile\<close> relate the code to it.
\<close>

definition interp :: "real list \<Rightarrow> real \<Rightarrow> real" where
  "interp s k = s ! nat \<lfloor>k\<rfloor> + (s ! nat \<lceil>k\<rceil> - s ! nat \<lfloor>k\<rfloor>) * (k - real_of_int \<lfloor>k\<rfloor>)"

section \<open>Shapes of the results\<close>

text \<open>
  The placeholder of a group without ages in queries iii and iv, and the statistic
  bundle of the sleep-hours query over no data at all.
\<close>

definition no_data_entry :: pyobj where
  "no_data_entry = PDict [(''count'', Atom (PInt 0)), (''message'', Atom (PStr ''No data''))]"

definition empty_sleep_stats :: pyobj where
  "empty_sleep_stats =
     PDict [(''count'', Atom (PInt 0)), (''mean'', Atom PNone), (''median'', Atom PNone),
            (''mode'', PList []), (''std_dev'', Atom PNone), (''min'', Atom PNone),
            (''25%'', Atom PNone), (''75%'', Atom PNone), (''max'', Atom PNone)]"

text \<open>
  The fractional rank \<open>k = (len(numbers) - 1) * (percentile / 100)\<close> as the float
  operations deliver it for a sequence of \<open>n\<close> numbers: the quotient rounded, then the
  product rounded.
\<close>

definition float_rank :: "nat \<Rightarrow> number \<Rightarrow> real" where
  "float_rank n percentile =
     round_double (real (n - 1) * round_double (number_value percentile / 100))"

text \<open>
  An interpreter for the instances: its \<open>sum\<close> adds the floats from left to right,
  and its \<open>str\<close> of a float is left open (no instance prints a float).
\<close>

definition plain_sum :: "pynum list \<Rightarrow> xfloat" where
  "plain_sum items =
     fold (\<lambda>x acc. case as_double x of Inr d \<Rightarrow> fadd acc d | Inl e \<Rightarrow> acc) items (Fin 0)"

definition an_interpreter :: interpreter where
  "an_interpreter = \<lparr>float_sum = plain_sum, float_str = (\<lambda>x. [])\<rparr>"

text \<open>
  An age dictionary that is full: a positive count, a mean, a median and at least one
  modal value. \<open>group_value\<close> is the entry of a group, where \<open>group_entry\<close> returns one.
\<close>

definition age_dict :: "int \<Rightarrow> pynum \<Rightarrow> pynum \<Rightarrow> number list \<Rightarrow> (string \<times> pyobj) list" where
  "age_dict n mean median modes =
     [(''count'', Atom (PInt n)), (''average_age'', num_obj (Some mean)),
      (''median_age'', num_obj (Some median)),
      (''modal_age'', PList (map number_obj modes))]"

definition full_age_dict :: "(string \<times> pyobj) list \<Rightarrow> bool" where
  "full_age_dict d \<longleftrightarrow>
     (\<exists>n mean median modes. 0 < n \<and> modes \<noteq> [] \<and> d = age_dict n mean median modes)"

definition group_value :: "interpreter \<Rightarrow> number list \<Rightarrow> pyobj" where
  "group_value py ages =
     (case group_entry py ages of Inr entry \<Rightarrow> entry | Inl e \<Rightarrow> Atom PNone)"

text \<open>
  The two central elements of a sorted sequence of even length (of odd length, the
  central element is the second of them), and the numbers that a float holds exactly:
  every float of a record, and every \<open>int\<close> that is a double (an \<open>int\<close> of magnitude up
  to \<open>2 ^ 53\<close> always is).
\<close>

definition lower_middle :: "number list \<Rightarrow> number" where
  "lower_middle S = sort_key number_value S ! (length S div 2 - 1)"

definition upper_middle :: "number list \<Rightarrow> number" where
  "upper_middle S = sort_key number_value S ! (length S div 2)"

definition exact :: "number \<Rightarrow> bool" where
  "exact x \<longleftrightarrow> is_double (number_value x)"

fun small_int :: "number \<Rightarrow> bool" where
  "small_int (NInt i) = (\<bar>i\<bar> \<le> 2 ^ 50)"
| "small_int (NFloat x) = False"

section \<open>The loader\<close>

text \<open>
  Strings are lists of 8-bit characters; the file is taken to be ASCII text.
  \<open>str.strip()\<close> removes the white space of both ends: the characters 9 to 13, 28 to
  31 and the space. \<open>s.split(',')\<close> cuts at every comma and always yields at least
  one piece.
\<close>

definition is_space :: "char \<Rightarrow> bool" where
  "is_space c = (let n = (of_char c :: nat) in (9 \<le> n \<and> n \<le> 13) \<or> (28 \<le> n \<and> n \<le> 32))"

definition strip :: "string \<Rightarrow> string" where
  "strip s = rev (dropWhile is_space (rev (dropWhile is_space s)))"

fun split_str :: "char \<Rightarrow> string \<Rightarrow> string list" where
  "split_str sep [] = [[]]"
| "split_str sep (c # cs) =
     (if c = sep then [] # split_str sep cs
      else case split_str sep cs of
             piece # pieces \<Rightarrow> (c # piece) # pieces
           | [] \<Rightarrow> [[c]])"

text \<open>
  \<open>int(s)\<close> of a stripped string: an optional sign, then decimal digits, where single
  underscores may stand between digits. \<open>None\<close> stands for the \<open>ValueError\<close> that the
  loader catches. (The limit that recent interpreters put on the number of digits is
  not modelled.)
\<close>

definition is_digit :: "char \<Rightarrow> bool" where
  "is_digit c = (let n = (of_char c :: nat) in 48 \<le> n \<and> n \<le> 57)"

fun digit_groups :: "string \<Rightarrow> bool" where
  "digit_groups [] = False"
| "digit_groups [c] = is_digit c"
| "digit_groups (c # d # rest) =
     (is_digit c \<and> (if d = CHR ''_'' then digit_groups rest else digit_groups (d # rest)))"

definition digits_value :: "string \<Rightarrow> nat" where
  "digits_value s = foldl (\<lambda>acc c. 10 * acc + (of_char c - 48)) 0 (filter is_digit s)"

definition nat_literal :: "string \<Rightarrow> nat option" where
  "nat_literal s = (if digit_groups s then Some (digits_value s) else None)"

definition py_int :: "string \<Rightarrow> int option" where
  "py_int s =
     (case s of
        [] \<Rightarrow> None
      | c # cs \<Rightarrow>
          if c = CHR ''-'' then map_option (\<lambda>n. - int n) (nat_literal cs)
          else if c = CHR ''+'' then map_option int (nat_literal cs)
          else map_option int (nat_literal s))"

text \<open>
  \<open>_convert_to_appropriate_type(value_str)\<close>. \<open>float()\<close> is the parameter
  \<open>float_of\<close>: it gives the float of a string, or \<open>None\<close> for its \<open>ValueError\<close>.
\<close>

definition convert_to_appropriate_type :: "(string \<Rightarrow> 'f option) \<Rightarrow> string \<Rightarrow> 'f pyval" where
  "convert_to_appropriate_type float_of value_str0 =
     (let value_str = strip value_str0
      in if value_str \<in> set [''N/A'', ''''] then PNone
         else if value_str = ''Unknown'' then PStr ''Unknown''
         else case py_int value_str of
                Some i \<Rightarrow> PInt i
              | None \<Rightarrow>
                  (case float_of value_str of
                     Some x \<Rightarrow> PFloat x
                   | None \<Rightarrow> PStr value_str))"

text \<open>
  A \<open>float()\<close> for plain decimal literals (an optional sign, digits, and at most one
  point with a digit on one side at least), as an instance of the parameter.
\<close>

definition decimal_float :: "string \<Rightarrow> real option" where
  "decimal_float s =
     (let negative = (take 1 s = ''-'');
          body = (if take 1 s = ''-'' \<or> take 1 s = ''+'' then drop 1 s else s);
          whole = takeWhile (\<lambda>c. c \<noteq> CHR ''.'') body;
          frac = drop 1 (dropWhile (\<lambda>c. c \<noteq> CHR ''.'') body)
      in if list_all is_digit whole \<and> list_all is_digit frac \<and> whole @ frac \<noteq> []
         then Some ((if negative then - 1 else 1)
                    * (real (digits_value whole) + real (digits_value frac) / 10 ^ length frac))
         else None)"

text \<open>
  What \<open>open(filepath)\<close> meets: no such file, another failure of opening (with the
  text of its exception), or a text. The text is what the text mode hands over, every
  line end translated to the newline character. It may come with the text of an
  exception that reading raises once the text is consumed (a decoding error, an I/O
  error). Iterating over the file yields its lines, each with its line end.
\<close>

datatype opened = Missing | Unopenable string | Readable string "string option"

fun split_lines :: "string \<Rightarrow> string list" where
  "split_lines [] = []"
| "split_lines (c # cs) =
     (if c = CHR 0x0A then [c] # split_lines cs
      else case split_lines cs of
             line # lines \<Rightarrow> (c # line) # lines
           | [] \<Rightarrow> [[c]])"

datatype load_error = FileNotFoundError string | Exception string

text \<open>
  The dict display \<open>{header[i]: convert(values[i]) for i in range(expected_columns)}\<close>.
  It is evaluated only under the test \<open>len(values) == expected_columns\<close>, so every index
  is in range.
\<close>

definition make_record :: "(string \<Rightarrow> 'f option) \<Rightarrow> string list \<Rightarrow> string list \<Rightarrow> 'f pydict" where
  "make_record float_of header vals =
     fold (\<lambda>i record. dict_set record (header ! i) (convert_to_appropriate_type float_of (vals ! i)))
          [0..<length header] []"

definition cells :: "string \<Rightarrow> string list" where
  "cells line = map strip (split_str CHR '','' (strip line))"

definition read_rows ::
  "(string \<Rightarrow> 'f option) \<Rightarrow> string list \<Rightarrow> string list \<Rightarrow> 'f pydict list" where
  "read_rows float_of header lines =
     fold (\<lambda>line data.
             if strip line = [] then data
             else if length (cells line) = length header
                  then data @ [make_record float_of header (cells line)]
                  else data)
          lines []"

text \<open>
  The body of the \<open>try\<close>: \<open>Inl e\<close> when an exception with the text \<open>e\<close> leaves it,
  \<open>Inr\<close> of the pair returned otherwise. The local list \<open>data\<close> is lost with the
  exception.
\<close>

definition read_file ::
  "(string \<Rightarrow> 'f option) \<Rightarrow> string list \<Rightarrow> string option
     \<Rightarrow> string + 'f pydict list \<times> string list" where
  "read_file float_of lines failure =
     (case lines of
        [] \<Rightarrow> (case failure of Some e \<Rightarrow> Inl e | None \<Rightarrow> Inr ([], []))
      | header_line # rest \<Rightarrow>
          if header_line = [] then Inr ([], [])
          else
            let header = cells header_line;
                data = read_rows float_of header rest
            in case failure of Some e \<Rightarrow> Inl e | None \<Rightarrow> Inr (data, header))"

definition load_data ::
  "(string \<Rightarrow> 'f option) \<Rightarrow> (string \<Rightarrow> opened) \<Rightarrow> string
     \<Rightarrow> load_error + 'f pydict list \<times> string list" where
  "load_data float_of fs filepath =
     (case fs filepath of
        Missing \<Rightarrow> Inl (FileNotFoundError (''Dataset file not found at: '' @ filepath))
      | Unopenable e \<Rightarrow> Inl (Exception (''An error occurred while reading the dataset: '' @ e))
      | Readable text failure \<Rightarrow>
          (case read_file float_of (split_lines text) failure of
             Inl e \<Rightarrow> Inl (Exception (''An error occurred while reading the dataset: '' @ e))
           | Inr result \<Rightarrow> Inr result))"

section \<open>Properties of the filter\<close>

lemma fold_append_filter:
  "fold (\<lambda>x acc. if P x then acc @ [x] else acc) xs acc0 = acc0 @ filter P xs"
  by (induction xs arbitrary: acc0) simp_all

lemma filter_data_None: "filter_data data None = data"
  by (simp add: filter_data_def falsy_conditions_def)

lemma filter_data_Some: "filter_data data (Some c) = filter (matches c) data"
proof (cases "c = []")
  case True
  then show ?thesis
    by (simp add: filter_data_def falsy_conditions_def matches_def)
next
  case False
  then show ?thesis
    by (simp add: filter_data_def falsy_conditions_def fold_append_filter)
qed

lemma matches_iff: "matches c r \<longleftrightarrow> (\<forall>(k, v) \<in> set c. py_eq (dict_get r k) v)"
  by (auto simp: matches_def list_all_iff)

text \<open>
  Claim C4, as stated, asks that a kept record's value equals the condition's value
  exactly, type included. The comparison of the code is Python's \<open>==\<close>, under which
  the float \<open>1.0\<close> (what the loader makes of the cell \<open>1.0\<close>) equals the int \<open>1\<close>:
  the record below is kept by the condition \<open>Hypertension = 1\<close> although its value is
  not the int \<open>1\<close>.
\<close>

theorem filter_data_type_counterexample:
  "filter_data [[(''Hypertension'', PFloat 1)]] (Some [(''Hypertension'', PInt 1)])
     = [[(''Hypertension'', PFloat 1)]]
   \<and> dict_get [(''Hypertension'', PFloat 1)] ''Hypertension'' \<noteq> PInt 1"
  by (simp add: filter_data_def falsy_conditions_def matches_def dict_get_def)

text \<open>
  Claim C4, amended: for every record list and condition set, the filter keeps a record
  iff, for every (field, value) pair of the conditions, the record's value at that field
  (\<open>None\<close> when the field is absent) equals the given value under Python's \<open>==\<close>:
  a number never equals a string, so the integer \<open>1\<close> is distinct from the string
  \<open>"1"\<close>, while an integer and a float of the same numeric value are equal. An empty
  or absent condition set returns all the records unchanged.
\<close>

theorem filter_data_keeps_iff:
  "(r \<in> set (filter_data data (Some c)) \<longleftrightarrow>
      r \<in> set data \<and> (\<forall>(k, v) \<in> set c. py_eq (dict_get r k) v))
   \<and> \<not> py_eq (PInt 1) (PStr ''1'')
   \<and> py_eq (PInt 1) (PFloat 1)
   \<and> filter_data data (Some []) = data
   \<and> filter_data data None = data"
  by (simp add: filter_data_Some filter_data_None matches_iff matches_def)

text \<open>
  Claim C4, instance: of two records, the one with \<open>Hypertension\<close> the integer \<open>1\<close>
  is kept by the condition \<open>Hypertension = 1\<close> and the one with the string \<open>"1"\<close> is
  dropped.
\<close>

theorem filter_data_keeps_iff_witness:
  "[(''Hypertension'', PInt 1), (''Age'', PInt 70)] \<in>
       set (filter_data [[(''Hypertension'', PInt 1), (''Age'', PInt 70)],
                         [(''Hypertension'', PStr ''1'')]]
              (Some [(''Hypertension'', PInt 1)]))
    \<and> [(''Hypertension'', PStr ''1'')] \<notin>
       set (filter_data [[(''Hypertension'', PInt 1), (''Age'', PInt 70)],
                         [(''Hypertension'', PStr ''1'')]]
              (Some [(''Hypertension'', PInt 1)]))"
  using filter_data_keeps_iff [of "[(''Hypertension'', PInt 1), (''Age'', PInt 70)]"
          "[[(''Hypertension'', PInt 1), (''Age'', PInt 70)], [(''Hypertension'', PStr ''1'')]]"
          "[(''Hypertension'', PInt 1)]"]
        filter_data_keeps_iff [of "[(''Hypertension'', PStr ''1'')]"
          "[[(''Hypertension'', PInt 1), (''Age'', PInt 70)], [(''Hypertension'', PStr ''1'')]]"
          "[(''Hypertension'', PInt 1)]"]
  by (simp add: dict_get_def)

text \<open>
  Claim C10: for every record list and condition set, the output of the filter is the
  input itself when the condition set is empty or absent, and otherwise the list of the
  matching records in their input order: a subsequence of the input in which a record
  that is kept occurs exactly as often as in the input, a record that is not kept does
  not occur, and no record is altered.
\<close>

theorem filter_data_subseq:
  "filter_data data conditions =
      (if falsy_conditions conditions then data
       else filter (matches (the conditions)) data)
   \<and> subseq (filter_data data conditions) data
   \<and> count_list (filter_data data conditions) r =
       (if falsy_conditions conditions \<or> matches (the conditions) r
        then count_list data r else 0)"
proof (cases conditions)
  case None
  then show ?thesis by (simp add: filter_data_None falsy_conditions_def)
next
  case (Some c)
  have "count_list (filter (matches c) data) r = (if matches c r then count_list data r else 0)"
    by (induction data) auto
  moreover have "c = [] \<Longrightarrow> matches c r" by (simp add: matches_def)
  moreover have "c = [] \<Longrightarrow> filter (matches c) data = data" by (simp add: matches_def)
  ultimately show ?thesis using Some
    by (auto simp: filter_data_Some falsy_conditions_def)
qed

section \<open>Properties of dict assignment\<close>

lemma dict_set_fresh: "k \<notin> fst ` set d \<Longrightarrow> dict_set d k v = d @ [(k, v)]"
  by (induction d k v rule: dict_set.induct) auto

lemma dict_set_subset: "set (dict_set d k v) \<subseteq> insert (k, v) (set d)"
  by (induction d k v rule: dict_set.induct) auto

lemma dict_set_keys: "fst ` set (dict_set d k v) = insert k (fst ` set d)"
  by (induction d k v rule: dict_set.induct) auto

section \<open>Properties of the rounding to a double\<close>

lemma round_half_even_floor: "\<lfloor>y\<rfloor> \<le> round_half_even y \<and> round_half_even y \<le> \<lfloor>y\<rfloor> + 1"
  unfolding round_half_even_def Let_def by auto

lemma round_half_even_mono:
  assumes "x \<le> y"
  shows "round_half_even x \<le> round_half_even y"
proof (cases "\<lfloor>x\<rfloor> = \<lfloor>y\<rfloor>")
  case True
  with assms show ?thesis unfolding round_half_even_def Let_def by auto
next
  case False
  with assms have "\<lfloor>x\<rfloor> < \<lfloor>y\<rfloor>" by (simp add: floor_mono order.strict_iff_order)
  then show ?thesis
    using round_half_even_floor [of x] round_half_even_floor [of y] by linarith
qed

lemma round2_mono: "x \<le> y \<Longrightarrow> round2 x \<le> round2 y"
  unfolding round2_def by (simp add: round_half_even_mono divide_right_mono)

lemma round_half_even_of_int: "round_half_even (real_of_int i) = i"
  by (simp add: round_half_even_def)

lemma round2_of_int: "round2 (real_of_int i) = real_of_int i"
proof -
  have "real_of_int i * 100 = real_of_int (i * 100)" by simp
  then have "round_half_even (real_of_int i * 100) = i * 100"
    by (simp only: round_half_even_of_int)
  then show ?thesis by (simp add: round2_def)
qed

lemma round_half_even_near:
  assumes "\<bar>d\<bar> < 1 / 2"
  shows "round_half_even (real_of_int m + d) = m"
proof (cases "0 \<le> d")
  case True
  then have f: "\<lfloor>real_of_int m + d\<rfloor> = m" using assms by (intro floor_unique) auto
  show ?thesis unfolding round_half_even_def Let_def f using assms True by simp
next
  case False
  then have f: "\<lfloor>real_of_int m + d\<rfloor> = m - 1" using assms by (intro floor_unique) auto
  show ?thesis unfolding round_half_even_def Let_def f using assms False by simp
qed

lemma round_half_even_minus: "round_half_even (- y) = - round_half_even y"
proof (cases "y = real_of_int \<lfloor>y\<rfloor>")
  case True
  then obtain i where y: "y = real_of_int i" ..
  have "round_half_even (real_of_int (- i)) = - i" by (rule round_half_even_of_int)
  then show ?thesis unfolding y by (simp add: round_half_even_of_int)
next
  case False
  define f where "f = \<lfloor>y\<rfloor>"
  define d where "d = y - real_of_int f"
  have d0: "0 < d" and d1: "d < 1"
    using False unfolding d_def f_def by linarith+
  have fm: "\<lfloor>- y\<rfloor> = - f - 1"
    using d0 d1 unfolding d_def by (intro floor_unique) auto
  have dm: "- y - real_of_int (- f - 1) = 1 - d" unfolding d_def by simp
  have ev: "even (- f - 1) \<longleftrightarrow> odd f" by simp
  have l: "round_half_even (- y) =
      (if 1 - d < 1 / 2 then - f - 1 else if 1 / 2 < 1 - d then - f
       else if odd f then - f - 1 else - f)"
    unfolding round_half_even_def Let_def fm dm ev by simp
  have r: "round_half_even y =
      (if d < 1 / 2 then f else if 1 / 2 < d then f + 1 else if even f then f else f + 1)"
    unfolding round_half_even_def Let_def f_def [symmetric] d_def [symmetric] by (rule refl)
  show ?thesis unfolding l r by auto
qed

lemma round_half_even_nonneg: "0 \<le> y \<Longrightarrow> 0 \<le> round_half_even y"
  using round_half_even_mono [of 0 y] round_half_even_of_int [of 0] by simp

lemma p2_pos: "0 < 2 powr real_of_int k"
  by simp

lemma p2_mono: "a \<le> b \<Longrightarrow> 2 powr real_of_int a \<le> (2::real) powr real_of_int b"
  by (simp add: powr_mono)

lemma p2_less: "a < b \<Longrightarrow> 2 powr real_of_int a < (2::real) powr real_of_int b"
  by (simp add: powr_less_mono)

lemma p2_add: "(2::real) powr real_of_int (a + b) = 2 powr real_of_int a * 2 powr real_of_int b"
  by (simp add: powr_add)

lemma p2_nat: "0 \<le> k \<Longrightarrow> (2::real) powr real_of_int k = real_of_int (2 ^ nat k)"
  by (simp add: powr_real_of_int)

lemma floor_log2:
  assumes "x \<noteq> 0"
  shows "2 powr real_of_int \<lfloor>log 2 \<bar>x\<bar>\<rfloor> \<le> \<bar>x\<bar>"
    and "\<bar>x\<bar> < 2 powr real_of_int (\<lfloor>log 2 \<bar>x\<bar>\<rfloor> + 1)"
proof -
  have "0 < \<bar>x\<bar>" using assms by simp
  then have "2 powr real_of_int \<lfloor>log 2 \<bar>x\<bar>\<rfloor> \<le> \<bar>x\<bar>
      \<and> \<bar>x\<bar> < 2 powr real_of_int (\<lfloor>log 2 \<bar>x\<bar>\<rfloor> + 1)"
    using floor_log_eq_powr_iff [of "\<bar>x\<bar>" 2 "\<lfloor>log 2 \<bar>x\<bar>\<rfloor>"] by simp
  then show "2 powr real_of_int \<lfloor>log 2 \<bar>x\<bar>\<rfloor> \<le> \<bar>x\<bar>"
    and "\<bar>x\<bar> < 2 powr real_of_int (\<lfloor>log 2 \<bar>x\<bar>\<rfloor> + 1)" by simp_all
qed

lemma exponent_upper:
  assumes "x \<noteq> 0"
  shows "\<bar>x\<bar> < 2 powr real_of_int (exponent x + 1)"
proof -
  have "\<lfloor>log 2 \<bar>x\<bar>\<rfloor> + 1 \<le> exponent x + 1" by (simp add: exponent_def)
  then have "2 powr real_of_int (\<lfloor>log 2 \<bar>x\<bar>\<rfloor> + 1) \<le> (2::real) powr real_of_int (exponent x + 1)"
    by (rule p2_mono)
  with floor_log2(2) [OF assms] show ?thesis by linarith
qed

lemma exponent_eqI:
  assumes "2 powr real_of_int n \<le> \<bar>x\<bar>" "\<bar>x\<bar> < 2 powr real_of_int (n + 1)" "- 1022 \<le> n"
  shows "exponent x = n"
proof -
  have "0 < \<bar>x\<bar>" using assms(1) p2_pos [of n] by linarith
  then have "\<lfloor>log 2 \<bar>x\<bar>\<rfloor> = n"
    using floor_log_eq_powr_iff [of "\<bar>x\<bar>" 2 n] assms(1,2) by simp
  then show ?thesis using assms(3) by (simp add: exponent_def)
qed

lemma exponent_small:
  assumes "x \<noteq> 0" "\<bar>x\<bar> < 2 powr real_of_int (- 1022)"
  shows "exponent x = - 1022"
proof -
  have "\<not> - 1022 \<le> \<lfloor>log 2 \<bar>x\<bar>\<rfloor>"
  proof
    assume "- 1022 \<le> \<lfloor>log 2 \<bar>x\<bar>\<rfloor>"
    then have "2 powr real_of_int (- 1022) \<le> (2::real) powr real_of_int \<lfloor>log 2 \<bar>x\<bar>\<rfloor>"
      by (rule p2_mono)
    with floor_log2(1) [OF assms(1)] assms(2) show False by linarith
  qed
  then show ?thesis by (simp add: exponent_def)
qed

lemma exponent_lower:
  assumes "2 powr real_of_int (- 1022) \<le> \<bar>x\<bar>"
  shows "2 powr real_of_int (exponent x) \<le> \<bar>x\<bar>"
proof -
  have x0: "x \<noteq> 0" using assms p2_pos [of "- 1022"] by auto
  have "- 1022 \<le> \<lfloor>log 2 \<bar>x\<bar>\<rfloor>"
  proof (rule ccontr)
    assume "\<not> - 1022 \<le> \<lfloor>log 2 \<bar>x\<bar>\<rfloor>"
    then have "\<lfloor>log 2 \<bar>x\<bar>\<rfloor> + 1 \<le> - 1022" by linarith
    then have "2 powr real_of_int (\<lfloor>log 2 \<bar>x\<bar>\<rfloor> + 1) \<le> (2::real) powr real_of_int (- 1022)"
      by (rule p2_mono)
    with floor_log2(2) [OF x0] assms show False by linarith
  qed
  then have "exponent x = \<lfloor>log 2 \<bar>x\<bar>\<rfloor>" by (simp add: exponent_def)
  then show ?thesis using floor_log2(1) [OF x0] by simp
qed

lemma exponent_ge: "- 1022 \<le> exponent x"
  by (simp add: exponent_def)

lemma exponent_minus: "exponent (- x) = exponent x"
  by (simp add: exponent_def)

lemma quantum_pos: "0 < quantum x"
  by (simp add: quantum_def)

lemma quantum_minus: "quantum (- x) = quantum x"
  by (simp add: quantum_def exponent_minus)

lemma round_double_minus: "round_double (- x) = - round_double x"
  by (simp add: round_double_def quantum_minus round_half_even_minus)

lemma round_double_nonneg:
  assumes "0 \<le> x"
  shows "0 \<le> round_double x"
proof (cases "x = 0")
  case True
  then show ?thesis by (simp add: round_double_def)
next
  case False
  have "0 \<le> x / quantum x" using assms quantum_pos [of x] by simp
  then have "0 \<le> round_half_even (x / quantum x)" by (rule round_half_even_nonneg)
  then show ?thesis using False quantum_pos [of x] by (simp add: round_double_def)
qed

lemma exponent_le:
  assumes "x \<noteq> 0" "\<bar>x\<bar> < 2 powr real_of_int (n + 1)" "- 1022 \<le> n"
  shows "exponent x \<le> n"
proof -
  have "\<lfloor>log 2 \<bar>x\<bar>\<rfloor> \<le> n"
  proof (rule ccontr)
    assume "\<not> \<lfloor>log 2 \<bar>x\<bar>\<rfloor> \<le> n"
    then have "n + 1 \<le> \<lfloor>log 2 \<bar>x\<bar>\<rfloor>" by linarith
    then have "2 powr real_of_int (n + 1) \<le> (2::real) powr real_of_int \<lfloor>log 2 \<bar>x\<bar>\<rfloor>"
      by (rule p2_mono)
    with floor_log2(1) [OF assms(1)] assms(2) show False by linarith
  qed
  then show ?thesis using assms(3) by (simp add: exponent_def)
qed

lemma round_double_multiple:
  assumes "x = real_of_int m * quantum x"
  shows "round_double x = x"
proof (cases "x = 0")
  case True
  then show ?thesis by (simp add: round_double_def)
next
  case False
  have "x / quantum x = real_of_int m"
    using assms quantum_pos [of x] by (simp add: field_simps)
  then have "round_half_even (x / quantum x) = m" by (simp only: round_half_even_of_int)
  then show ?thesis using False assms by (simp add: round_double_def)
qed

lemma round_double_dyadic:
  assumes "\<bar>m\<bar> < 2 ^ 53" "- 1074 \<le> j"
  shows "round_double (real_of_int m * 2 powr real_of_int j) = real_of_int m * 2 powr real_of_int j"
proof (cases "m = 0")
  case True
  then show ?thesis by (simp add: round_double_def)
next
  case False
  define x where "x = real_of_int m * 2 powr real_of_int j"
  have x0: "x \<noteq> 0" using False by (simp add: x_def)
  have "real_of_int \<bar>m\<bar> < real_of_int (2 ^ 53)" using assms(1) by (simp only: of_int_less_iff)
  then have m: "\<bar>real_of_int m\<bar> < 2 powr real_of_int 53" by (simp add: p2_nat)
  have e: "53 + j = j + 52 + 1" by simp
  have "\<bar>x\<bar> = \<bar>real_of_int m\<bar> * 2 powr real_of_int j" by (simp add: x_def abs_mult)
  also have "\<dots> < 2 powr real_of_int 53 * 2 powr real_of_int j"
    using m by (intro mult_strict_right_mono) simp_all
  also have "\<dots> = 2 powr real_of_int (j + 52 + 1)"
    unfolding e [symmetric] by (rule p2_add [symmetric])
  finally have ub: "\<bar>x\<bar> < 2 powr real_of_int (j + 52 + 1)" .
  have le: "exponent x \<le> j + 52"
    using x0 ub assms(2) by (intro exponent_le) simp_all
  define d where "d = j - (exponent x - 52)"
  have d0: "0 \<le> d" using le by (simp add: d_def)
  have "2 powr real_of_int j = 2 powr real_of_int (d + (exponent x - 52))"
    by (simp add: d_def)
  also have "\<dots> = 2 powr real_of_int d * quantum x"
    unfolding quantum_def by (rule p2_add)
  also have "\<dots> = real_of_int (2 ^ nat d) * quantum x"
    by (simp only: p2_nat [OF d0])
  finally have "x = real_of_int (m * 2 ^ nat d) * quantum x"
    by (simp add: x_def)
  then have "round_double x = x" by (rule round_double_multiple)
  then show ?thesis by (simp only: x_def)
qed

lemma round_double_upper:
  assumes "x \<noteq> 0"
  shows "\<bar>round_double x\<bar> \<le> 2 powr real_of_int (exponent x + 1)"
proof -
  have ub: "\<bar>x\<bar> / quantum x < 2 powr real_of_int 53"
  proof -
    have "\<bar>x\<bar> < 2 powr real_of_int (53 + (exponent x - 52))"
      using exponent_upper [OF assms] by (simp add: add.commute)
    then have "\<bar>x\<bar> < 2 powr real_of_int 53 * quantum x"
      unfolding quantum_def by (simp only: p2_add)
    then show ?thesis using quantum_pos [of x] by (simp add: field_simps)
  qed
  have p: "(2::real) powr real_of_int 53 = real_of_int (2 ^ 53)" by (simp add: p2_nat)
  have "round_half_even (\<bar>x\<bar> / quantum x) \<le> round_half_even (real_of_int (2 ^ 53))"
    using ub unfolding p by (intro round_half_even_mono) simp
  then have r: "round_half_even (\<bar>x\<bar> / quantum x) \<le> 2 ^ 53"
    by (simp only: round_half_even_of_int)
  have nn: "0 \<le> round_half_even (\<bar>x\<bar> / quantum x)"
    using quantum_pos [of x] by (intro round_half_even_nonneg) simp
  have "round_double \<bar>x\<bar> = real_of_int (round_half_even (\<bar>x\<bar> / quantum x)) * quantum x"
    using assms by (cases "0 \<le> x") (simp_all add: round_double_def quantum_minus)
  also have "\<dots> \<le> real_of_int (2 ^ 53) * quantum x"
  proof (rule mult_right_mono)
    show "real_of_int (round_half_even (\<bar>x\<bar> / quantum x)) \<le> real_of_int (2 ^ 53)"
      using r by (simp only: of_int_le_iff)
    show "0 \<le> quantum x" using quantum_pos [of x] by simp
  qed
  also have "\<dots> = 2 powr real_of_int (53 + (exponent x - 52))"
    unfolding quantum_def p [symmetric] by (simp only: p2_add)
  finally have "round_double \<bar>x\<bar> \<le> 2 powr real_of_int (exponent x + 1)"
    by (simp add: add.commute)
  moreover have "\<bar>round_double x\<bar> = round_double \<bar>x\<bar>"
    using round_double_nonneg [of x] round_double_nonneg [of "- x"]
    by (cases "0 \<le> x") (simp_all add: round_double_minus)
  ultimately show ?thesis by simp
qed

lemma round_double_lower:
  assumes "2 powr real_of_int (- 1022) \<le> x"
  shows "2 powr real_of_int (exponent x) \<le> round_double x"
proof -
  have xpos: "0 < x" using assms p2_pos [of "- 1022"] by linarith
  have "2 powr real_of_int (exponent x) \<le> \<bar>x\<bar>"
    using assms xpos by (intro exponent_lower) simp
  then have "2 powr real_of_int (52 + (exponent x - 52)) \<le> x" using xpos by simp
  then have "2 powr real_of_int 52 * quantum x \<le> x"
    unfolding quantum_def by (simp only: p2_add)
  then have lb: "real_of_int (2 ^ 52) \<le> x / quantum x"
    using quantum_pos [of x] by (simp add: field_simps p2_nat)
  have "round_half_even (real_of_int (2 ^ 52)) \<le> round_half_even (x / quantum x)"
    using lb by (rule round_half_even_mono)
  then have r: "2 ^ 52 \<le> round_half_even (x / quantum x)"
    by (simp only: round_half_even_of_int)
  have "2 powr real_of_int (exponent x) = 2 powr real_of_int (52 + (exponent x - 52))" by simp
  also have "\<dots> = real_of_int (2 ^ 52) * quantum x"
    unfolding quantum_def by (simp only: p2_add) (simp add: p2_nat)
  also have "\<dots> \<le> real_of_int (round_half_even (x / quantum x)) * quantum x"
  proof (rule mult_right_mono)
    show "real_of_int (2 ^ 52) \<le> real_of_int (round_half_even (x / quantum x))"
      using r by (simp only: of_int_le_iff)
    show "0 \<le> quantum x" using quantum_pos [of x] by simp
  qed
  also have "\<dots> = round_double x" using xpos by (simp add: round_double_def)
  finally show ?thesis .
qed

lemma round_double_mono_pos:
  assumes "0 < x" "x \<le> y"
  shows "round_double x \<le> round_double y"
proof (cases "exponent x = exponent y")
  case True
  then have q: "quantum y = quantum x" by (simp add: quantum_def)
  have "x / quantum x \<le> y / quantum x"
    using assms(2) quantum_pos [of x] by (simp add: divide_right_mono)
  then have "round_half_even (x / quantum x) \<le> round_half_even (y / quantum x)"
    by (rule round_half_even_mono)
  then have "real_of_int (round_half_even (x / quantum x)) * quantum x
      \<le> real_of_int (round_half_even (y / quantum x)) * quantum x"
    using quantum_pos [of x] by (intro mult_right_mono) simp_all
  then show ?thesis using assms by (simp add: round_double_def q)
next
  case False
  have ypos: "0 < y" using assms by linarith
  have "\<lfloor>log 2 x\<rfloor> \<le> \<lfloor>log 2 y\<rfloor>"
    using assms by (intro floor_mono) simp
  then have "exponent x \<le> exponent y"
    using assms ypos by (simp add: exponent_def max.coboundedI1)
  with False have lt: "exponent x + 1 \<le> exponent y" by simp
  have ylow: "2 powr real_of_int (- 1022) \<le> y"
  proof (rule ccontr)
    assume "\<not> 2 powr real_of_int (- 1022) \<le> y"
    then have "exponent y = - 1022" using ypos by (intro exponent_small) simp_all
    with lt exponent_ge [of x] show False by simp
  qed
  have "round_double x \<le> \<bar>round_double x\<bar>" by simp
  also have "\<dots> \<le> 2 powr real_of_int (exponent x + 1)"
    using assms(1) by (intro round_double_upper) simp
  also have "\<dots> \<le> 2 powr real_of_int (exponent y)" using lt by (rule p2_mono)
  also have "\<dots> \<le> round_double y" using ylow by (rule round_double_lower)
  finally show ?thesis .
qed

lemma round_double_mono:
  assumes "x \<le> y"
  shows "round_double x \<le> round_double y"
proof -
  consider "0 < x" | "x \<le> 0" "0 \<le> y" | "y < 0" by linarith
  then show ?thesis
  proof cases
    case 1
    then show ?thesis using assms by (rule round_double_mono_pos)
  next
    case 2
    have "round_double x \<le> 0"
      using round_double_nonneg [of "- x"] 2(1) by (simp add: round_double_minus)
    moreover have "0 \<le> round_double y" using 2(2) by (rule round_double_nonneg)
    ultimately show ?thesis by simp
  next
    case 3
    then have "0 < - y" "- y \<le> - x" using assms by simp_all
    then have "round_double (- y) \<le> round_double (- x)" by (rule round_double_mono_pos)
    then show ?thesis by (simp add: round_double_minus)
  qed
qed

lemma p2_succ: "(2::real) powr real_of_int (k + 1) = 2 * 2 powr real_of_int k"
proof -
  have "(2::real) powr real_of_int (k + 1) = 2 powr real_of_int k * 2 powr real_of_int 1"
    by (rule p2_add)
  then show ?thesis by simp
qed

lemma exponent_normal:
  assumes "2 powr real_of_int n \<le> \<bar>x\<bar>" "- 1022 \<le> n"
  shows "n \<le> exponent x"
proof (rule ccontr)
  assume "\<not> n \<le> exponent x"
  then have "exponent x + 1 \<le> n" by simp
  then have "2 powr real_of_int (exponent x + 1) \<le> (2::real) powr real_of_int n"
    by (rule p2_mono)
  moreover have "x \<noteq> 0" using assms(1) p2_pos [of n] by auto
  ultimately show False using exponent_upper [of x] assms(1) by linarith
qed

lemma round_double_half:
  assumes "2 powr real_of_int (- 1021) \<le> \<bar>x\<bar>"
  shows "round_double (x / 2) = round_double x / 2"
proof -
  define n where "n = exponent x"
  have x0: "x \<noteq> 0" using assms p2_pos [of "- 1021"] by auto
  have n1: "- 1021 \<le> n" unfolding n_def using assms by (intro exponent_normal) simp_all
  have "2 powr real_of_int (- 1022) \<le> (2::real) powr real_of_int (- 1021)"
    by (intro p2_mono) simp
  then have "2 powr real_of_int (- 1022) \<le> \<bar>x\<bar>" using assms by linarith
  then have lo: "2 powr real_of_int n \<le> \<bar>x\<bar>" unfolding n_def by (rule exponent_lower)
  have hi: "\<bar>x\<bar> < 2 powr real_of_int (n + 1)" unfolding n_def by (rule exponent_upper [OF x0])
  note two = p2_succ
  have lo2: "2 powr real_of_int (n - 1) \<le> \<bar>x / 2\<bar>"
    using lo two [of "n - 1"] by simp
  have hi2: "\<bar>x / 2\<bar> < 2 powr real_of_int (n - 1 + 1)"
    using hi two [of n] by simp
  have e2: "exponent (x / 2) = n - 1"
    using lo2 hi2 n1 by (intro exponent_eqI) simp_all
  have "quantum x = 2 powr real_of_int (n - 1 - 52 + 1)" by (simp add: quantum_def n_def)
  also have "\<dots> = 2 * quantum (x / 2)"
    unfolding quantum_def e2 by (rule two)
  finally have q: "quantum x = 2 * quantum (x / 2)" .
  have d: "x / 2 / quantum (x / 2) = x / quantum x"
    unfolding q by simp
  show ?thesis
    using x0 unfolding round_double_def d by (simp add: q)
qed

lemma round_double_idem: "round_double (round_double x) = round_double x"
proof (cases "x = 0")
  case True
  then show ?thesis by (simp add: round_double_def)
next
  case False
  define m where "m = round_half_even (x / quantum x)"
  define j where "j = exponent x - 52"
  have y: "round_double x = real_of_int m * 2 powr real_of_int j"
    using False by (simp add: round_double_def m_def j_def quantum_def)
  have j0: "- 1074 \<le> j" using exponent_ge [of x] by (simp add: j_def)
  have "\<bar>real_of_int m\<bar> * 2 powr real_of_int j \<le> 2 powr real_of_int (53 + j)"
    using round_double_upper [OF False] unfolding y
    by (simp add: abs_mult j_def add.commute)
  also have "\<dots> = real_of_int (2 ^ 53) * 2 powr real_of_int j"
    by (simp only: p2_add) (simp add: p2_nat)
  finally have "\<bar>real_of_int m\<bar> \<le> real_of_int (2 ^ 53)"
    using p2_pos [of j] by (simp only: mult_le_cancel_right_pos)
  then have "real_of_int \<bar>m\<bar> \<le> real_of_int (2 ^ 53)" by simp
  then have mb: "\<bar>m\<bar> \<le> 2 ^ 53" by (simp only: of_int_le_iff)
  show ?thesis
  proof (cases "\<bar>m\<bar> < 2 ^ 53")
    case True
    then show ?thesis unfolding y using j0 by (rule round_double_dyadic)
  next
    case False
    then have "\<bar>m\<bar> = 2 ^ 53" using mb by simp
    then have "m = sgn m * 2 ^ 53" by (cases "0 \<le> m") (simp_all add: sgn_if)
    then have "real_of_int m = real_of_int (sgn m * 2 ^ 53)" by (rule arg_cong)
    then have "real_of_int m = real_of_int (sgn m) * real_of_int (2 ^ 53)"
      by (simp only: of_int_mult)
    also have "real_of_int (2 ^ 53) = 2 powr real_of_int 53" by (simp add: p2_nat)
    finally have "real_of_int m * 2 powr real_of_int j
        = real_of_int (sgn m) * (2 powr real_of_int 53 * 2 powr real_of_int j)"
      by simp
    then have y': "round_double x = real_of_int (sgn m) * 2 powr real_of_int (53 + j)"
      unfolding y by (simp only: p2_add)
    have "\<bar>sgn m\<bar> < 2 ^ 53" by (simp add: sgn_if)
    moreover have "- 1074 \<le> 53 + j" using j0 by simp
    ultimately show ?thesis unfolding y' by (rule round_double_dyadic)
  qed
qed

lemma round_double_absorb_pos:
  assumes stable: "round_double v = v"
    and big: "2 powr real_of_int (- 1021) \<le> v"
    and small: "\<bar>t\<bar> \<le> quantum v / 8"
  shows "round_double (v + t) = v"
proof -
  define e where "e = exponent v"
  define q where "q = quantum v"
  define m where "m = round_half_even (v / q)"
  have vpos: "0 < v" using big p2_pos [of "- 1021"] by linarith
  have qpos: "0 < q" unfolding q_def by (rule quantum_pos)
  have v: "v = real_of_int m * q"
    using stable vpos by (simp add: round_double_def m_def q_def)
  have e1: "- 1021 \<le> e" unfolding e_def using big vpos by (intro exponent_normal) simp_all
  note two = p2_succ
  have qe: "2 powr real_of_int e = real_of_int (2 ^ 52) * q"
  proof -
    have "2 powr real_of_int e = 2 powr real_of_int (52 + (e - 52))" by simp
    also have "\<dots> = 2 powr real_of_int 52 * q"
      unfolding q_def quantum_def e_def by (rule p2_add)
    finally show ?thesis by (simp add: p2_nat)
  qed
  have qe1: "2 powr real_of_int (e + 1) = real_of_int (2 ^ 53) * q"
    unfolding two qe by simp
  have "2 powr real_of_int (- 1022) \<le> (2::real) powr real_of_int (- 1021)"
    by (intro p2_mono) simp
  then have "2 powr real_of_int (- 1022) \<le> \<bar>v\<bar>" using big vpos by linarith
  then have "2 powr real_of_int e \<le> \<bar>v\<bar>" unfolding e_def by (rule exponent_lower)
  then have "real_of_int (2 ^ 52) * q \<le> real_of_int m * q" using vpos v qe by simp
  then have "real_of_int (2 ^ 52) \<le> real_of_int m"
    using qpos by (simp only: mult_le_cancel_right_pos)
  then have mlo: "2 ^ 52 \<le> m" by (simp only: of_int_le_iff)
  have "\<bar>v\<bar> < 2 powr real_of_int (e + 1)"
    unfolding e_def using vpos by (intro exponent_upper) simp
  then have "real_of_int m * q < real_of_int (2 ^ 53) * q" using vpos v qe1 by simp
  then have "real_of_int m < real_of_int (2 ^ 53)"
    using qpos by (simp only: mult_less_cancel_right_pos)
  then have "m < 2 ^ 53" by (simp only: of_int_less_iff)
  then have mhi: "m + 1 \<le> 2 ^ 53" by simp
  have tq: "\<bar>t\<bar> \<le> q / 8" using small by (simp add: q_def)
  have z0: "0 < v + t"
  proof -
    have "q \<le> real_of_int m * q" using mlo qpos by simp
    then show ?thesis using tq qpos v by linarith
  qed
  show ?thesis
  proof (cases "2 powr real_of_int e \<le> v + t")
    case True
    have "real_of_int (m + 1) \<le> real_of_int (2 ^ 53)" using mhi by (simp only: of_int_le_iff)
    then have "real_of_int (m + 1) * q \<le> real_of_int (2 ^ 53) * q"
      using qpos by (intro mult_right_mono) simp_all
    then have "v + q \<le> real_of_int (2 ^ 53) * q" using v by (simp add: algebra_simps)
    then have "v + t < 2 powr real_of_int (e + 1)" unfolding qe1 using tq qpos by linarith
    then have "exponent (v + t) = e"
      using True z0 e1 by (intro exponent_eqI) simp_all
    then have qz: "quantum (v + t) = q" by (simp add: quantum_def q_def e_def)
    have "(v + t) / q = real_of_int m + t / q"
      using qpos v by (simp add: field_simps)
    moreover have "\<bar>t / q\<bar> < 1 / 2" using tq qpos by (simp add: field_simps)
    ultimately have r: "round_half_even ((v + t) / q) = m"
      by (simp only: round_half_even_near)
    have rd: "round_double (v + t) = real_of_int (round_half_even ((v + t) / q)) * q"
      using z0 unfolding round_double_def qz by simp
    show ?thesis unfolding rd r using v by simp
  next
    case False
    then have "real_of_int m * q + t < real_of_int (2 ^ 52) * q" using v qe by simp
    moreover have "real_of_int (2 ^ 52 + 1) * q = real_of_int (2 ^ 52) * q + q"
      by (simp add: algebra_simps)
    ultimately have "real_of_int m * q < real_of_int (2 ^ 52 + 1) * q"
      using tq qpos by linarith
    then have "real_of_int m < real_of_int (2 ^ 52 + 1)"
      using qpos by (simp only: mult_less_cancel_right_pos)
    then have "m < 2 ^ 52 + 1" by (simp only: of_int_less_iff)
    then have m: "m = 2 ^ 52" using mlo by simp
    have ve: "v = 2 powr real_of_int e" unfolding qe v m by (rule refl)
    have half: "2 powr real_of_int e = 2 * 2 powr real_of_int (e - 1)"
      using two [of "e - 1"] by simp
    have "q / 8 \<le> 2 powr real_of_int (e - 1)"
      using half qe qpos by simp
    then have lo: "2 powr real_of_int (e - 1) \<le> \<bar>v + t\<bar>"
      using tq ve half z0 by simp
    have hi: "\<bar>v + t\<bar> < 2 powr real_of_int (e - 1 + 1)" using False z0 by simp
    have ez: "exponent (v + t) = e - 1"
      using lo hi e1 by (intro exponent_eqI) simp_all
    have "q = 2 powr real_of_int (e - 1 - 52 + 1)" by (simp add: q_def quantum_def e_def)
    also have "\<dots> = 2 * quantum (v + t)" unfolding quantum_def ez by (rule two)
    finally have qz: "quantum (v + t) = q / 2" by simp
    have "(v + t) / (q / 2) = real_of_int (2 * m) + 2 * t / q"
      using qpos v by (simp add: field_simps)
    moreover have "\<bar>2 * t / q\<bar> < 1 / 2" using tq qpos by (simp add: field_simps)
    ultimately have r: "round_half_even ((v + t) / (q / 2)) = 2 * m"
      by (simp only: round_half_even_near)
    have rd: "round_double (v + t) = real_of_int (round_half_even ((v + t) / (q / 2))) * (q / 2)"
      using z0 unfolding round_double_def qz by simp
    show ?thesis unfolding rd r using v by simp
  qed
qed

lemma round_double_absorb:
  assumes "round_double v = v" "2 powr real_of_int (- 1021) \<le> \<bar>v\<bar>" "\<bar>t\<bar> \<le> quantum v / 8"
  shows "round_double (v + t) = v"
proof (cases "0 \<le> v")
  case True
  then show ?thesis using assms by (intro round_double_absorb_pos) simp_all
next
  case False
  then have "round_double (- v + - t) = - v"
    using assms by (intro round_double_absorb_pos) (simp_all add: round_double_minus quantum_minus)
  moreover have "- v + - t = - (v + t)" by simp
  ultimately have "round_double (- (v + t)) = - v" by (simp only:)
  then have "- round_double (v + t) = - v" by (simp only: round_double_minus)
  then show ?thesis by simp
qed

section \<open>Properties of the mode\<close>

lemma count_add_keys:
  "map fst (count_add c x) = (if x \<in> fst ` set c then map fst c else map fst c @ [x])"
  by (induction c x rule: count_add.induct) auto

lemma count_add_map_of:
  "map_of (count_add c x) = (map_of c)(x \<mapsto> (case map_of c x of None \<Rightarrow> 1 | Some n \<Rightarrow> n + 1))"
  by (induction c x rule: count_add.induct) (auto simp: fun_eq_iff)

lemma fold_count_add_keys:
  "distinct (map fst c) \<Longrightarrow>
   distinct (map fst (fold (\<lambda>x c. count_add c x) xs c)) \<and>
   set (map fst (fold (\<lambda>x c. count_add c x) xs c)) = set (map fst c) \<union> set xs"
proof (induction xs arbitrary: c)
  case Nil
  then show ?case by simp
next
  case (Cons x xs)
  have d: "distinct (map fst (count_add c x))"
    using Cons.prems by (auto simp: count_add_keys)
  have s: "set (map fst (count_add c x)) = insert x (set (map fst c))"
    by (auto simp: count_add_keys)
  show ?case using Cons.IH [OF d] s by auto
qed

lemma fold_count_add_map_of:
  "map_of (fold (\<lambda>x c. count_add c x) xs c) y =
     (case map_of c y of
        None \<Rightarrow> if y \<in> set xs then Some (count_list xs y) else None
      | Some n \<Rightarrow> Some (n + count_list xs y))"
proof (induction xs arbitrary: c)
  case Nil
  then show ?case by (simp split: option.splits)
next
  case (Cons x xs)
  show ?case
    by (simp add: Cons.IH count_add_map_of split: option.splits)
qed

lemma Counter_distinct: "distinct (map fst (Counter xs))"
  using fold_count_add_keys [of "[]" xs] by (simp add: Counter_def)

lemma Counter_set: "set (Counter xs) = (\<lambda>x. (x, count_list xs x)) ` set xs"
proof -
  have m: "map_of (Counter xs) y = (if y \<in> set xs then Some (count_list xs y) else None)" for y
    using fold_count_add_map_of [of xs "[]" y] by (simp add: Counter_def)
  show ?thesis
  proof (intro set_eqI iffI)
    fix p assume "p \<in> set (Counter xs)"
    then have "map_of (Counter xs) (fst p) = Some (snd p)"
      using Counter_distinct [of xs] by simp
    then show "p \<in> (\<lambda>x. (x, count_list xs x)) ` set xs"
      unfolding m by (cases p) (auto split: if_splits)
  next
    fix p assume "p \<in> (\<lambda>x. (x, count_list xs x)) ` set xs"
    then obtain x where x: "x \<in> set xs" "p = (x, count_list xs x)" by auto
    then have "map_of (Counter xs) x = Some (count_list xs x)" by (simp add: m)
    then show "p \<in> set (Counter xs)" using x by (auto dest: map_of_SomeD)
  qed
qed

lemma py_max_Max: "xs \<noteq> [] \<Longrightarrow> py_max xs = Inr (Max (set xs))"
proof (cases xs)
  case Nil
  assume "xs \<noteq> []"
  with Nil show ?thesis by simp
next
  case (Cons a list)
  show ?thesis unfolding Cons Max.set_eq_fold by (simp add: py_max_def)
qed

lemma select_count_eq:
  "[item. (item, count) \<leftarrow> c, count = m] = map fst (filter (\<lambda>p. snd p = m) c)"
  by (induction c) auto

lemma sort_distinct_eq: "distinct l \<Longrightarrow> set l = A \<Longrightarrow> sort l = sorted_list_of_set A"
  by (metis sorted_list_of_set_sort_remdups distinct_remdups_id)

lemma calculate_mode_value:
  fixes v :: "'a::linorder list"
  shows "calculate_mode (map Some v) =
           Inr (sorted_list_of_set {x \<in> set v. count_list v x = Max (count_list v ` set v)})"
proof (cases "v = []")
  case True
  then show ?thesis by (simp add: calculate_mode_def)
next
  case ne: False
  have valid: "[item. Some item \<leftarrow> map Some v] = v"
    by (induction v) simp_all
  define m where "m = Max (count_list v ` set v)"
  have snd_set: "set (map snd (Counter v)) = count_list v ` set v"
    by (force simp: Counter_set image_iff)
  have cne: "map snd (Counter v) \<noteq> []"
    using ne snd_set by (metis empty_is_image set_empty)
  have mx: "py_max (map snd (Counter v)) = Inr m"
    using py_max_Max [OF cne] snd_set by (simp add: m_def)
  let ?sel = "[item. (item, count) \<leftarrow> Counter v, count = m]"
  have sel_eq: "?sel = map fst (filter (\<lambda>p. snd p = m) (Counter v))"
    by (rule select_count_eq)
  have d: "distinct ?sel"
    unfolding sel_eq using Counter_distinct [of v] by (simp add: distinct_map_filter)
  have s: "set ?sel = {x \<in> set v. count_list v x = m}"
    unfolding sel_eq by (force simp: Counter_set image_iff)
  have "sort ?sel = sorted_list_of_set {x \<in> set v. count_list v x = m}"
    using d s by (rule sort_distinct_eq)
  then show ?thesis
    using ne mx unfolding calculate_mode_def valid Let_def
    by (simp add: and_then_def m_def)
qed

lemma calculate_mode_drops_None:
  "calculate_mode items = calculate_mode (map Some [item. Some item \<leftarrow> items])"
proof -
  have "[i. Some i \<leftarrow> map Some [item. Some item \<leftarrow> items]] = [item. Some item \<leftarrow> items]"
    by (induction items) (auto split: option.splits)
  then show ?thesis by (simp add: calculate_mode_def)
qed

text \<open>
  Claim C8: for every sequence, the mode is the ascending list of exactly the values
  whose number of occurrences, counted after the \<open>None\<close> entries are removed, is the
  maximal one; an empty input and an input of \<open>None\<close> entries only give the empty list
  (a list, not \<open>None\<close>), and the mode of \<open>[1, 1, 2, 2, 3]\<close> is \<open>[1, 2]\<close>.
\<close>

theorem calculate_mode_sorted_most_frequent:
  fixes items :: "'a::linorder option list"
  shows "(let valid = [item. Some item \<leftarrow> items]
          in calculate_mode items =
               Inr (sorted_list_of_set
                      {x \<in> set valid. count_list valid x = Max (count_list valid ` set valid)}))
   \<and> calculate_mode ([] :: 'a option list) = Inr []
   \<and> calculate_mode (replicate n (None :: 'a option)) = Inr []
   \<and> calculate_mode [Some 1, Some 1, Some 2, Some 2, Some (3::int)] = Inr [1, 2]"
proof -
  have none: "[item. Some item \<leftarrow> replicate n (None :: 'a option)] = []"
    by (induction n) simp_all
  have "calculate_mode [Some 1, Some 1, Some 2, Some 2, Some (3::int)] = Inr [1, 2]"
    by (simp add: calculate_mode_def Counter_def py_max_def and_then_def)
  moreover have "calculate_mode (replicate n (None :: 'a option)) = Inr []"
    unfolding calculate_mode_def none by simp
  moreover have "calculate_mode ([] :: 'a option list) = Inr []"
    by (simp add: calculate_mode_def)
  ultimately show ?thesis
    unfolding Let_def calculate_mode_drops_None [of items] calculate_mode_value by simp
qed

section \<open>Doubles\<close>

lemma is_double_iff: "is_double x \<longleftrightarrow> round_double x = x \<and> \<bar>x\<bar> < 2 ^ 1024"
  unfolding is_double_def double_of_def Let_def by auto

lemma double_of_finite:
  "\<bar>round_double x\<bar> < 2 ^ 1024 \<Longrightarrow> double_of x = Fin (round_double x)"
  unfolding double_of_def Let_def by auto

lemma double_of_Fin: "double_of x = Fin y \<Longrightarrow> y = round_double x \<and> \<bar>y\<bar> < 2 ^ 1024"
  unfolding double_of_def Let_def by (auto split: if_splits)

lemma double_of_is_double: "is_double x \<Longrightarrow> double_of x = Fin x"
  by (simp add: is_double_def)

lemma is_double_round: "double_of x = Fin y \<Longrightarrow> is_double y"
  using double_of_Fin [of x y] by (auto simp: is_double_iff round_double_idem)

lemma is_double_minus: "is_double (- x) \<longleftrightarrow> is_double x"
  by (simp add: is_double_iff round_double_minus)

lemma p2_1024: "(2::real) powr real_of_int 1024 = 2 ^ 1024"
proof -
  have "(0::int) \<le> 1024" by simp
  then have "(2::real) powr real_of_int 1024 = real_of_int (2 ^ nat 1024)" by (rule p2_nat)
  then show ?thesis by simp
qed

lemma is_double_dyadic:
  assumes "\<bar>m\<bar> < 2 ^ 53" "- 1074 \<le> j" "j \<le> 971"
  shows "is_double (real_of_int m * 2 powr real_of_int j)"
proof -
  have "real_of_int \<bar>m\<bar> < real_of_int (2 ^ 53)" using assms(1) by (simp only: of_int_less_iff)
  then have m: "\<bar>real_of_int m\<bar> < 2 powr real_of_int 53" by (simp add: p2_nat)
  have "\<bar>real_of_int m * 2 powr real_of_int j\<bar> = \<bar>real_of_int m\<bar> * 2 powr real_of_int j"
    by (simp add: abs_mult)
  also have "\<dots> < 2 powr real_of_int 53 * 2 powr real_of_int j"
    using m by (intro mult_strict_right_mono) simp_all
  also have "\<dots> = 2 powr real_of_int (53 + j)" by (rule p2_add [symmetric])
  also have "\<dots> \<le> 2 powr real_of_int 1024" using assms(3) by (intro p2_mono) simp
  finally have "\<bar>real_of_int m * 2 powr real_of_int j\<bar> < 2 ^ 1024" by (simp only: p2_1024)
  then show ?thesis
    using round_double_dyadic [OF assms(1,2)] by (simp only: is_double_iff)
qed

lemma is_double_power2:
  assumes "- 1074 \<le> j" "j \<le> 1023"
  shows "is_double (2 powr real_of_int j)"
proof -
  have r: "round_double (real_of_int 1 * 2 powr real_of_int j) = real_of_int 1 * 2 powr real_of_int j"
    using assms(1) by (intro round_double_dyadic) simp_all
  have "2 powr real_of_int j < (2::real) powr real_of_int 1024"
    using assms(2) by (intro p2_less) simp
  then have "\<bar>2 powr real_of_int j\<bar> < (2::real) ^ 1024" by (simp only: p2_1024) simp
  then show ?thesis using r by (simp add: is_double_iff)
qed

lemma is_double_int:
  assumes "\<bar>i\<bar> \<le> 2 ^ 53"
  shows "is_double (real_of_int i)"
proof (cases "\<bar>i\<bar> < 2 ^ 53")
  case True
  then have "is_double (real_of_int i * 2 powr real_of_int 0)"
    by (intro is_double_dyadic) simp_all
  then show ?thesis by simp
next
  case False
  then have "\<bar>i\<bar> = 2 ^ 53" using assms by simp
  then have "i = 2 ^ 53 \<or> i = - (2 ^ 53)" by linarith
  moreover have "is_double (2 powr real_of_int 53)" by (intro is_double_power2) simp_all
  moreover have "(2::real) powr real_of_int 53 = real_of_int (2 ^ 53)" by (simp add: p2_nat)
  ultimately show ?thesis
    using is_double_minus [of "real_of_int (2 ^ 53)"] by auto
qed

lemma is_double_halves:
  assumes "\<bar>i\<bar> < 2 ^ 53"
  shows "is_double (real_of_int i / 2)"
proof -
  have "is_double (real_of_int i * 2 powr real_of_int (- 1))"
    using assms by (intro is_double_dyadic) simp_all
  moreover have "(2::real) powr real_of_int (- 1) = 1 / 2" by (simp add: powr_minus_divide)
  ultimately show ?thesis by simp
qed

lemma is_double_quarters:
  assumes "\<bar>i\<bar> < 2 ^ 53"
  shows "is_double (real_of_int i / 4)"
proof -
  have "is_double (real_of_int i * 2 powr real_of_int (- 2))"
    using assms by (intro is_double_dyadic) simp_all
  moreover have "(2::real) powr real_of_int (- 2) = 1 / 4"
    by (simp add: powr_neg_numeral)
  ultimately show ?thesis by (simp only:) simp
qed

lemma is_double_half:
  assumes "is_double a" "2 powr real_of_int (- 1021) \<le> \<bar>a\<bar>"
  shows "is_double (a / 2)"
  using assms round_double_half [OF assms(2)] by (simp add: is_double_iff)

lemma double_of_between:
  assumes "is_double lo" "is_double hi" "lo \<le> x" "x \<le> hi"
  shows "\<exists>y. double_of x = Fin y \<and> lo \<le> y \<and> y \<le> hi \<and> is_double y"
proof -
  have lo: "lo \<le> round_double x"
    using round_double_mono [OF assms(3)] assms(1) by (simp add: is_double_iff)
  have hi: "round_double x \<le> hi"
    using round_double_mono [OF assms(4)] assms(2) by (simp add: is_double_iff)
  have "\<bar>round_double x\<bar> < 2 ^ 1024"
    using lo hi assms(1,2) unfolding is_double_iff by linarith
  then have d: "double_of x = Fin (round_double x)" by (rule double_of_finite)
  then have "is_double (round_double x)" by (rule is_double_round)
  then show ?thesis using d lo hi by simp
qed

lemma double_of_overflow:
  assumes "2 ^ 1024 \<le> x"
  shows "double_of x = PosInf"
proof -
  have "round_double (real_of_int 1 * 2 powr real_of_int 1024)
          = real_of_int 1 * 2 powr real_of_int 1024"
    by (intro round_double_dyadic) simp_all
  then have "round_double (2 ^ 1024) = 2 ^ 1024" by (simp only: p2_1024) simp
  then have "2 ^ 1024 \<le> round_double x" using round_double_mono [OF assms] by simp
  then show ?thesis by (simp add: double_of_def)
qed

lemma round2_small:
  assumes "\<bar>x\<bar> < 1 / 200"
  shows "round2 x = 0"
proof -
  have "round_half_even (real_of_int 0 + x * 100) = 0"
    using assms by (intro round_half_even_near) simp
  then show ?thesis by (simp add: round2_def)
qed

lemma round2_quarters: "round2 (real_of_int i / 4) = real_of_int i / 4"
proof -
  have "real_of_int i / 4 * 100 = real_of_int (25 * i)" by simp
  then have "round_half_even (real_of_int i / 4 * 100) = 25 * i"
    by (simp only: round_half_even_of_int)
  then show ?thesis by (simp add: round2_def)
qed

section \<open>Properties of the arithmetic operations\<close>

lemma and_then_Inr [simp]: "and_then (Inr v) f = f v"
  by (simp add: and_then_def)

lemma and_then_Inl [simp]: "and_then (Inl e) f = Inl e"
  by (simp add: and_then_def)

lemma and_then_eq_Inr: "and_then m f = Inr r \<longleftrightarrow> (\<exists>v. m = Inr v \<and> f v = Inr r)"
  by (cases m) simp_all

lemma and_then_eq_Inl:
  "and_then m f = Inl e \<longleftrightarrow> m = Inl e \<or> (\<exists>v. m = Inr v \<and> f v = Inl e)"
  by (cases m) simp_all

lemma py_index_nth:
  "i < length xs \<Longrightarrow> py_index xs (int i) = Inr (xs ! i)"
  by (simp add: py_index_def)

lemma py_index_nat:
  "0 \<le> i \<Longrightarrow> i < int (length xs) \<Longrightarrow> py_index xs i = Inr (xs ! nat i)"
  by (simp add: py_index_def)

lemma int_to_double_cases:
  "int_to_double i = Inl OverflowError
   \<or> int_to_double i = Inr (Fin (round_double (real_of_int i)))
     \<and> is_double (round_double (real_of_int i))"
proof (cases "double_of (real_of_int i)")
  case (Fin y)
  then have "y = round_double (real_of_int i)" "is_double y"
    using double_of_Fin [of "real_of_int i" y] is_double_round [of "real_of_int i" y] by simp_all
  then show ?thesis using Fin by (simp add: int_to_double_def)
qed (simp_all add: int_to_double_def)

lemma int_to_double_exact:
  "is_double (real_of_int i) \<Longrightarrow> int_to_double i = Inr (Fin (real_of_int i))"
  by (simp add: int_to_double_def is_double_def)

lemma int_to_double_error: "int_to_double i = Inl e \<Longrightarrow> e = OverflowError"
  using int_to_double_cases [of i] by auto

lemma as_double_error: "as_double a = Inl e \<Longrightarrow> e = OverflowError"
  by (cases a) (auto dest: int_to_double_error)

lemma py_add_error: "py_add a b = Inl e \<Longrightarrow> e = OverflowError"
  by (cases a; cases b) (auto simp: and_then_eq_Inl dest: int_to_double_error)

lemma py_sub_error: "py_sub a b = Inl e \<Longrightarrow> e = OverflowError"
  by (cases a; cases b) (auto simp: and_then_eq_Inl dest: int_to_double_error)

lemma py_mul_error: "py_mul a b = Inl e \<Longrightarrow> e = OverflowError"
  by (cases a; cases b) (auto simp: and_then_eq_Inl dest: int_to_double_error)

lemma py_round2_error: "py_round2 a = Inl e \<Longrightarrow> e = OverflowError"
proof (cases a)
  case (PyFloat x)
  assume "py_round2 a = Inl e"
  then show ?thesis unfolding PyFloat
    by (cases x) (auto split: xfloat.splits)
qed simp

lemma py_square_error: "py_square a = Inl e \<Longrightarrow> e = OverflowError"
proof (cases a)
  case (PyFloat x)
  assume "py_square a = Inl e"
  then show ?thesis unfolding PyFloat
    by (cases x) (auto split: xfloat.splits)
qed simp

lemma py_sqrt_error:
  assumes "py_sqrt a = Inl e"
  shows "e = OverflowError \<or> e = ValueError"
proof (cases "as_double a")
  case (Inl e')
  then show ?thesis using assms as_double_error [of a e'] by (simp add: py_sqrt_def)
next
  case (Inr x)
  then show ?thesis using assms by (cases x) (simp_all add: py_sqrt_def split: if_splits)
qed

lemma round_double_one: "round_double 1 = 1"
  using is_double_int [of 1] by (simp add: is_double_iff)

lemma round_double_zero: "round_double 0 = 0"
  by (simp add: round_double_def)

lemma is_double_zero: "is_double 0"
  using is_double_int [of 0] by simp

lemma is_double_one: "is_double 1"
  using is_double_int [of 1] by simp

lemma int_to_double_positive:
  assumes "0 < n" "int_to_double n = Inr y"
  shows "y \<noteq> Fin 0"
proof -
  have "1 \<le> real_of_int n" using assms(1) by simp
  then have "round_double 1 \<le> round_double (real_of_int n)" by (rule round_double_mono)
  then have "0 < round_double (real_of_int n)" by (simp add: round_double_one)
  then show ?thesis using int_to_double_cases [of n] assms(2) by auto
qed

lemma py_truediv_error:
  assumes "0 < n" "py_truediv a (PyInt n) = Inl e"
  shows "e = OverflowError"
proof (cases a)
  case (PyInt i)
  then show ?thesis using assms by (auto split: xfloat.splits)
next
  case (PyFloat x)
  then show ?thesis
    using assms int_to_double_positive [OF assms(1)]
    by (auto simp: and_then_eq_Inl dest: int_to_double_error split: if_splits)
qed

lemma all_as_double_error: "all_as_double xs = Inl e \<Longrightarrow> e = OverflowError"
  by (induction xs arbitrary: e) (auto simp: and_then_eq_Inl dest: as_double_error)

lemma py_sum_error: "py_sum py items = Inl e \<Longrightarrow> e = OverflowError"
  unfolding py_sum_def Let_def
  by (auto simp: and_then_eq_Inl dest: int_to_double_error all_as_double_error split: if_splits)

lemma squared_deviations_error: "squared_deviations m xs = Inl e \<Longrightarrow> e = OverflowError"
  by (induction xs arbitrary: e)
    (auto simp: and_then_eq_Inl dest: py_sub_error py_square_error)

section \<open>Properties of the statistics primitives\<close>

lemma calculate_mean_error: "calculate_mean py xs = Inl e \<Longrightarrow> e = OverflowError"
proof -
  assume a: "calculate_mean py xs = Inl e"
  then have ne: "xs \<noteq> []" by (auto simp: calculate_mean_def)
  then have pos: "0 < int (length xs)" by simp
  show ?thesis
    using a ne py_truediv_error [OF pos]
    by (auto simp: calculate_mean_def and_then_eq_Inl dest: py_sum_error py_round2_error)
qed

lemma calculate_mean_Some:
  "xs \<noteq> [] \<Longrightarrow> calculate_mean py xs = Inr r \<Longrightarrow> \<exists>v. r = Some v"
  by (auto simp: calculate_mean_def and_then_eq_Inr)

lemma calculate_median_body:
  assumes "xs \<noteq> []"
  shows "calculate_median xs =
     (if even (length xs)
      then and_then (py_add (as_pynum (sort_key number_value xs ! (length xs div 2 - 1)))
                            (as_pynum (sort_key number_value xs ! (length xs div 2)))) (\<lambda>t.
           and_then (py_truediv t (PyInt 2)) (\<lambda>q.
           and_then (py_round2 q) (\<lambda>r. Inr (Some r))))
      else and_then (py_round2 (as_pynum (sort_key number_value xs ! (length xs div 2))))
             (\<lambda>r. Inr (Some r)))"
proof -
  define s where "s = sort_key number_value xs"
  define m where "m = length xs div 2"
  have len: "length s = length xs" by (simp add: s_def)
  have pos: "0 < length xs" using assms by simp
  have mid: "int (length s) div 2 = int m" by (simp add: len m_def zdiv_int)
  have m_lt: "m < length s" using pos by (simp add: len m_def)
  have body: "calculate_median xs =
      (if int (length s) mod 2 = 0
       then and_then (py_index s (int m - 1)) (\<lambda>a.
            and_then (py_index s (int m)) (\<lambda>b.
            and_then (py_add (as_pynum a) (as_pynum b)) (\<lambda>t.
            and_then (py_truediv t (PyInt 2)) (\<lambda>q.
            and_then (py_round2 q) (\<lambda>r. Inr (Some r))))))
       else and_then (py_index s (int m)) (\<lambda>a.
            and_then (py_round2 (as_pynum a)) (\<lambda>r. Inr (Some r))))"
    unfolding calculate_median_def Let_def s_def [symmetric] mid using assms by simp
  have pm: "py_index s (int m) = Inr (s ! m)" by (rule py_index_nth [OF m_lt])
  show ?thesis
  proof (cases "even (length xs)")
    case True
    have "2 \<le> length xs" using pos True by presburger
    then have m1: "1 \<le> m" by (simp add: m_def)
    then have i1: "int m - 1 = int (m - 1)" by simp
    have par: "int (length s) mod 2 = 0" using True unfolding len by presburger
    have "m - 1 < length s" using m_lt by simp
    then have pm1: "py_index s (int m - 1) = Inr (s ! (m - 1))"
      unfolding i1 by (rule py_index_nth)
    show ?thesis
      unfolding body pm pm1 s_def [symmetric] m_def [symmetric] using True par by simp
  next
    case odd: False
    then have par: "int (length s) mod 2 \<noteq> 0" unfolding len by presburger
    show ?thesis
      unfolding body pm s_def [symmetric] m_def [symmetric] using odd par by simp
  qed
qed

lemma calculate_median_error: "calculate_median xs = Inl e \<Longrightarrow> e = OverflowError"
proof -
  assume a: "calculate_median xs = Inl e"
  then have ne: "xs \<noteq> []" by (auto simp: calculate_median_def)
  have two: "(0::int) < 2" by simp
  show ?thesis
    using a py_truediv_error [OF two] unfolding calculate_median_body [OF ne]
    by (auto simp: and_then_eq_Inl dest: py_add_error py_round2_error split: if_splits)
qed

lemma calculate_median_Some:
  "xs \<noteq> [] \<Longrightarrow> calculate_median xs = Inr r \<Longrightarrow> \<exists>v. r = Some v"
  unfolding calculate_median_def Let_def
  by (auto simp: and_then_eq_Inr split: if_splits)

lemma calculate_std_dev_error:
  assumes "calculate_std_dev py xs mv = Inl e"
  shows "e = OverflowError \<or> e = ValueError \<or> e = TypeError"
proof -
  have big: "\<not> length xs < 2" using assms by (auto simp: calculate_std_dev_def)
  then have pos: "0 < int (length xs) - 1" and ne: "xs \<noteq> []" by auto
  show ?thesis
    using assms big ne py_truediv_error [OF pos]
    by (auto simp: calculate_std_dev_def and_then_eq_Inl
        dest: calculate_mean_error squared_deviations_error py_sum_error py_sqrt_error
          py_round2_error
        split: option.splits)
qed

lemma fraction_value:
  assumes "0 \<le> number_value p" "number_value p \<le> 100"
  shows "\<exists>w. py_truediv (as_pynum p) (PyInt 100) = Inr (PyFloat (Fin w))
             \<and> w = round_double (number_value p / 100) \<and> 0 \<le> w \<and> w \<le> 1"
proof -
  have "0 \<le> number_value p / 100" "number_value p / 100 \<le> 1" using assms by simp_all
  with double_of_between [OF is_double_zero is_double_one]
  obtain w where w: "double_of (number_value p / 100) = Fin w" "0 \<le> w" "w \<le> 1" by blast
  then have rw: "w = round_double (number_value p / 100)"
    using double_of_Fin [of "number_value p / 100" w] by simp
  have "py_truediv (as_pynum p) (PyInt 100) = Inr (PyFloat (Fin w))"
  proof (cases p)
    case (NInt i)
    then show ?thesis using w(1) by simp
  next
    case (NFloat r)
    have "is_double (real_of_int 100)" by (intro is_double_int) simp
    then have "int_to_double 100 = Inr (Fin (real_of_int 100))" by (rule int_to_double_exact)
    then show ?thesis using NFloat w(1) by simp
  qed
  then show ?thesis using rw w(2,3) by blast
qed

lemma rank_value:
  assumes "0 < n" "int n \<le> 2 ^ 53" "0 \<le> w" "w \<le> 1"
  shows "\<exists>k. py_mul (PyInt (int n - 1)) (PyFloat (Fin w)) = Inr (PyFloat (Fin k))
             \<and> k = round_double (real (n - 1) * w) \<and> 0 \<le> k \<and> k \<le> real (n - 1)"
proof -
  have cast: "real_of_int (int n - 1) = real (n - 1)" using assms(1) by simp
  have "\<bar>int n - 1\<bar> \<le> 2 ^ 53" using assms(1,2) by simp
  then have d: "is_double (real_of_int (int n - 1))" by (rule is_double_int)
  then have c: "int_to_double (int n - 1) = Inr (Fin (real (n - 1)))"
    using int_to_double_exact [of "int n - 1"] by (simp only: cast)
  have "0 \<le> real (n - 1) * w" using assms(3) by simp
  moreover have "real (n - 1) * w \<le> real (n - 1)"
    using assms(4) by (simp add: mult_left_le)
  ultimately obtain k where
    k: "double_of (real (n - 1) * w) = Fin k" "0 \<le> k" "k \<le> real (n - 1)"
    using double_of_between [OF is_double_zero d [unfolded cast]] by blast
  then have rk: "k = round_double (real (n - 1) * w)"
    using double_of_Fin [of "real (n - 1) * w" k] by simp
  have "py_mul (PyInt (int n - 1)) (PyFloat (Fin w)) = Inr (PyFloat (Fin k))"
    using c k(1) by simp
  then show ?thesis using rk k(2,3) by blast
qed

lemma float_rank_bounds:
  assumes "0 < n" "int n \<le> 2 ^ 53" "0 \<le> number_value p" "number_value p \<le> 100"
  shows "0 \<le> float_rank n p \<and> float_rank n p \<le> real (n - 1)"
proof -
  obtain w where w: "w = round_double (number_value p / 100)" "0 \<le> w" "w \<le> 1"
    using fraction_value [OF assms(3,4)] by blast
  from rank_value [OF assms(1,2) w(2,3)] show ?thesis
    unfolding float_rank_def w(1) by auto
qed

lemma calculate_percentile_body:
  assumes "xs \<noteq> []" "int (length xs) \<le> 2 ^ 53"
    and "0 \<le> number_value p" "number_value p \<le> 100"
  shows "calculate_percentile xs p =
     (if \<lfloor>float_rank (length xs) p\<rfloor> = \<lceil>float_rank (length xs) p\<rceil>
      then and_then (py_round2 (as_pynum
             (sort_key number_value xs ! nat \<lfloor>float_rank (length xs) p\<rfloor>)))
             (\<lambda>r. Inr (Some r))
      else and_then (py_sub (PyInt \<lceil>float_rank (length xs) p\<rceil>)
                            (PyFloat (Fin (float_rank (length xs) p)))) (\<lambda>wa.
           and_then (py_mul (as_pynum
             (sort_key number_value xs ! nat \<lfloor>float_rank (length xs) p\<rfloor>)) wa) (\<lambda>lower.
           and_then (py_sub (PyFloat (Fin (float_rank (length xs) p)))
                            (PyInt \<lfloor>float_rank (length xs) p\<rfloor>)) (\<lambda>wb.
           and_then (py_mul (as_pynum
             (sort_key number_value xs ! nat \<lceil>float_rank (length xs) p\<rceil>)) wb) (\<lambda>upper.
           and_then (py_add lower upper) (\<lambda>v.
           and_then (py_round2 v) (\<lambda>r. Inr (Some r))))))))"
proof -
  define s where "s = sort_key number_value xs"
  define n where "n = length xs"
  define k where "k = float_rank n p"
  have len: "length s = n" by (simp add: s_def n_def)
  have pos: "0 < n" using assms(1) by (simp add: n_def)
  have n53: "int n \<le> 2 ^ 53" using assms(2) by (simp add: n_def)
  obtain w where w: "py_truediv (as_pynum p) (PyInt 100) = Inr (PyFloat (Fin w))"
      "w = round_double (number_value p / 100)" "0 \<le> w" "w \<le> 1"
    using fraction_value [OF assms(3,4)] by blast
  have "py_mul (PyInt (int n - 1)) (PyFloat (Fin w)) = Inr (PyFloat (Fin k))"
    using rank_value [OF pos n53 w(3,4)] unfolding k_def float_rank_def w(2) by auto
  then have mul: "py_mul (PyInt (int (length s) - 1)) (PyFloat (Fin w)) = Inr (PyFloat (Fin k))"
    by (simp only: len)
  have kb: "0 \<le> k" "k \<le> real (n - 1)"
    using float_rank_bounds [OF pos n53 assms(3,4)] by (simp_all add: k_def)
  have f0: "0 \<le> \<lfloor>k\<rfloor>" using kb(1) by simp
  have c1: "\<lceil>k\<rceil> \<le> int (n - 1)" using kb(2) by (simp add: ceiling_le_iff)
  have fc: "\<lfloor>k\<rfloor> \<le> \<lceil>k\<rceil>" by (rule floor_le_ceiling)
  have f_lt: "\<lfloor>k\<rfloor> < int (length s)" using c1 fc pos unfolding len by linarith
  have c_lt: "\<lceil>k\<rceil> < int (length s)" using c1 pos unfolding len by linarith
  have c0: "0 \<le> \<lceil>k\<rceil>" using f0 fc by linarith
  have pf: "py_index s \<lfloor>k\<rfloor> = Inr (s ! nat \<lfloor>k\<rfloor>)" using f0 f_lt by (rule py_index_nat)
  have pc: "py_index s \<lceil>k\<rceil> = Inr (s ! nat \<lceil>k\<rceil>)" using c0 c_lt by (rule py_index_nat)
  have tr: "py_trunc (PyFloat (Fin k)) = Inr \<lfloor>k\<rfloor>" using kb(1) by simp
  have "calculate_percentile xs p =
     (if \<lfloor>k\<rfloor> = \<lceil>k\<rceil>
      then and_then (py_round2 (as_pynum (s ! nat \<lfloor>k\<rfloor>))) (\<lambda>r. Inr (Some r))
      else and_then (py_sub (PyInt \<lceil>k\<rceil>) (PyFloat (Fin k))) (\<lambda>wa.
           and_then (py_mul (as_pynum (s ! nat \<lfloor>k\<rfloor>)) wa) (\<lambda>lower.
           and_then (py_sub (PyFloat (Fin k)) (PyInt \<lfloor>k\<rfloor>)) (\<lambda>wb.
           and_then (py_mul (as_pynum (s ! nat \<lceil>k\<rceil>)) wb) (\<lambda>upper.
           and_then (py_add lower upper) (\<lambda>v.
           and_then (py_round2 v) (\<lambda>r. Inr (Some r))))))))"
    unfolding calculate_percentile_def Let_def s_def [symmetric] w(1) and_then_Inr mul
      py_floor.simps py_ceil.simps tr pf pc
    using assms(1,3,4) by simp
  then show ?thesis by (simp only: s_def k_def n_def)
qed

lemma calculate_percentile_error:
  assumes "int (length xs) \<le> 2 ^ 53" "calculate_percentile xs p = Inl e"
  shows "e = OverflowError"
proof -
  have ne: "xs \<noteq> []" and p: "0 \<le> number_value p" "number_value p \<le> 100"
    using assms(2) by (auto simp: calculate_percentile_def split: if_splits)
  show ?thesis
    using assms(2) unfolding calculate_percentile_body [OF ne assms(1) p]
    by (auto simp: and_then_eq_Inl
        simp del: py_add.simps py_sub.simps py_mul.simps py_round2.simps
        dest: py_add_error py_sub_error py_mul_error py_round2_error
        split: if_splits)
qed

lemma modal_values_Nil: "modal_values [] = Inr []"
  by (simp add: modal_values_def calculate_mode_def)

lemma sleep_stats_empty: "sleep_stats py [] = Inr empty_sleep_stats"
  by (simp add: sleep_stats_def calculate_mean_def calculate_median_def modal_values_Nil
      calculate_std_dev_def calculate_percentile_def num_obj_def empty_sleep_stats_def)

section \<open>Degenerate input\<close>

lemma double_of_int: "\<bar>i\<bar> \<le> 2 ^ 53 \<Longrightarrow> double_of (real_of_int i) = Fin (real_of_int i)"
  using is_double_int [of i] by (simp add: is_double_def)

lemma double_of_zero: "double_of 0 = Fin 0"
  using double_of_int [of 0] by simp

lemma double_of_five: "double_of 5 = Fin 5"
  using double_of_int [of 5] by simp

lemma double_of_half: "double_of (1 / 2) = Fin (1 / 2)"
  using is_double_halves [of 1] by (simp add: is_double_def)

lemma round2_five: "round2 5 = 5"
  using round2_of_int [of 5] by simp

text \<open>
  Claim C6, as stated, says that a statistic bundle over an empty numeric sequence
  contains only absence markers. The sleep-hours query builds such a bundle when a group
  has no sleep hours: for the empty dataset each of its two bundles has the count \<open>0\<close>
  and the mode \<open>[]\<close>, which are not \<open>None\<close>.
\<close>

theorem empty_bundle_counterexample:
  "fst (query_average_sleep_hours_stroke an_interpreter [] []) =
     Inr (PDict
       [(''stroke'',
         PDict [(''count'', Atom (PInt 0)), (''mean'', Atom PNone), (''median'', Atom PNone),
                (''mode'', PList []), (''std_dev'', Atom PNone), (''min'', Atom PNone),
                (''25%'', Atom PNone), (''75%'', Atom PNone), (''max'', Atom PNone)]),
        (''no_stroke'',
         PDict [(''count'', Atom (PInt 0)), (''mean'', Atom PNone), (''median'', Atom PNone),
                (''mode'', PList []), (''std_dev'', Atom PNone), (''min'', Atom PNone),
                (''25%'', Atom PNone), (''75%'', Atom PNone), (''max'', Atom PNone)])])
   \<and> Atom (PInt 0) \<noteq> Atom PNone \<and> PList [] \<noteq> Atom PNone"
  by (simp add: query_average_sleep_hours_stroke_def get_numeric_values_def filter_data_def
      falsy_conditions_def sleep_stats_empty empty_sleep_stats_def save_and_return_def)

text \<open>
  Claim C6, amended: each statistics primitive returns \<open>None\<close> on degenerate input
  instead of computing a value: the mean and the median of the empty sequence, the sample
  standard deviation of a sequence of fewer than two elements, and the percentile of the
  empty sequence or at a percentile outside \<open>[0, 100]\<close>. Consequently no primitive
  raises \<open>ZeroDivisionError\<close> or \<open>IndexError\<close>: no statistic is computed with a zero
  divisor or an out-of-range index (for the percentile, in a sequence of at most \<open>2 ^ 53\<close>
  numbers, whose length and ranks are exact as floats). A statistic bundle over an empty
  numeric sequence has the count \<open>0\<close>, the empty list as its mode, and \<open>None\<close> in every
  other field (mean, median, standard deviation, minimum, percentiles, maximum).
\<close>

theorem primitives_absent_on_degenerate_input:
  "calculate_mean py [] = Inr None
   \<and> calculate_median [] = Inr None
   \<and> (length xs < 2 \<longrightarrow> calculate_std_dev py xs mv = Inr None)
   \<and> (xs = [] \<or> number_value p < 0 \<or> 100 < number_value p \<longrightarrow>
        calculate_percentile xs p = Inr None)
   \<and> calculate_mean py xs \<noteq> Inl ZeroDivisionError
   \<and> calculate_mean py xs \<noteq> Inl IndexError
   \<and> calculate_median xs \<noteq> Inl ZeroDivisionError
   \<and> calculate_median xs \<noteq> Inl IndexError
   \<and> calculate_std_dev py xs mv \<noteq> Inl ZeroDivisionError
   \<and> calculate_std_dev py xs mv \<noteq> Inl IndexError
   \<and> (int (length xs) \<le> 2 ^ 53 \<longrightarrow>
        calculate_percentile xs p \<noteq> Inl ZeroDivisionError
        \<and> calculate_percentile xs p \<noteq> Inl IndexError)
   \<and> sleep_stats py [] =
       Inr (PDict [(''count'', Atom (PInt 0)), (''mean'', Atom PNone), (''median'', Atom PNone),
                   (''mode'', PList []), (''std_dev'', Atom PNone), (''min'', Atom PNone),
                   (''25%'', Atom PNone), (''75%'', Atom PNone), (''max'', Atom PNone)])"
proof -
  have 1: "calculate_mean py [] = Inr None" by (simp add: calculate_mean_def)
  have 2: "calculate_median [] = Inr None" by (simp add: calculate_median_def)
  have 3: "length xs < 2 \<longrightarrow> calculate_std_dev py xs mv = Inr None"
    by (auto simp: calculate_std_dev_def)
  have 4: "xs = [] \<or> number_value p < 0 \<or> 100 < number_value p \<longrightarrow>
        calculate_percentile xs p = Inr None"
    by (auto simp: calculate_percentile_def)
  have 5: "calculate_mean py xs \<noteq> Inl ZeroDivisionError"
    and 6: "calculate_mean py xs \<noteq> Inl IndexError"
    using calculate_mean_error [of py xs] by auto
  have 7: "calculate_median xs \<noteq> Inl ZeroDivisionError"
    and 8: "calculate_median xs \<noteq> Inl IndexError"
    using calculate_median_error [of xs] by auto
  have 9: "calculate_std_dev py xs mv \<noteq> Inl ZeroDivisionError"
    and 10: "calculate_std_dev py xs mv \<noteq> Inl IndexError"
    using calculate_std_dev_error [of py xs mv] by auto
  have 11: "int (length xs) \<le> 2 ^ 53 \<longrightarrow>
        calculate_percentile xs p \<noteq> Inl ZeroDivisionError
        \<and> calculate_percentile xs p \<noteq> Inl IndexError"
    using calculate_percentile_error [of xs p] by auto
  have 12: "sleep_stats py [] =
       Inr (PDict [(''count'', Atom (PInt 0)), (''mean'', Atom PNone), (''median'', Atom PNone),
                   (''mode'', PList []), (''std_dev'', Atom PNone), (''min'', Atom PNone),
                   (''25%'', Atom PNone), (''75%'', Atom PNone), (''max'', Atom PNone)])"
    by (simp add: sleep_stats_empty empty_sleep_stats_def)
  show ?thesis using 1 2 3 4 5 6 7 8 9 10 11 12 by (intro conjI)
qed

text \<open>
  Claim C6, instance: the standard deviation of the one-element sequence \<open>[5]\<close> and the
  percentile of \<open>[5]\<close> at \<open>101\<close> are \<open>None\<close>, while the mean of \<open>[5]\<close> is \<open>5.0\<close> and
  its median and its percentile at \<open>50\<close> are \<open>5\<close>: none of them is an exception.
\<close>

theorem primitives_absent_on_degenerate_input_witness:
  "length [NInt 5] < 2 \<and> calculate_std_dev an_interpreter [NInt 5] None = Inr None
   \<and> 100 < number_value (NInt 101) \<and> calculate_percentile [NInt 5] (NInt 101) = Inr None
   \<and> int (length [NInt 5]) \<le> 2 ^ 53
   \<and> calculate_mean an_interpreter [NInt 5] = Inr (Some (PyFloat (Fin 5)))
   \<and> calculate_median [NInt 5] = Inr (Some (PyInt 5))
   \<and> calculate_percentile [NInt 5] (NInt 50) = Inr (Some (PyInt 5))"
proof -
  have m: "calculate_mean an_interpreter [NInt 5] = Inr (Some (PyFloat (Fin 5)))"
    by (simp add: calculate_mean_def py_sum_def double_of_five round2_five)
  have d: "calculate_median [NInt 5] = Inr (Some (PyInt 5))"
    by (simp add: calculate_median_def py_index_def)
  have p: "calculate_percentile [NInt 5] (NInt 50) = Inr (Some (PyInt 5))"
    by (simp add: calculate_percentile_def double_of_half int_to_double_def double_of_zero
        py_index_def)
  show ?thesis
    using primitives_absent_on_degenerate_input [of an_interpreter "[NInt 5]" None "NInt 101"]
      m d p
    by simp
qed

section \<open>Halving a sum of two doubles\<close>

lemma double_of_abs_bound:
  assumes "is_double B" "\<bar>x\<bar> \<le> B"
  shows "\<exists>y. double_of x = Fin y \<and> \<bar>y\<bar> \<le> B \<and> is_double y"
proof -
  have "is_double (- B)" using assms(1) by (simp add: is_double_minus)
  moreover have "- B \<le> x" "x \<le> B" using assms(2) by simp_all
  ultimately obtain y where "double_of x = Fin y" "- B \<le> y" "y \<le> B" "is_double y"
    using double_of_between [of "- B" B x] assms(1) by blast
  then show ?thesis by (intro exI [of _ y]) simp
qed

lemma double_of_abs_lower:
  assumes "is_double B" "B \<le> \<bar>x\<bar>" "double_of x = Fin y"
  shows "B \<le> \<bar>y\<bar>"
proof -
  have y: "y = round_double x" using double_of_Fin [OF assms(3)] by simp
  have rb: "round_double B = B" using assms(1) by (simp add: is_double_iff)
  show ?thesis
  proof (cases "0 \<le> x")
    case True
    then have "B \<le> x" using assms(2) by simp
    then have "round_double B \<le> round_double x" by (rule round_double_mono)
    then show ?thesis unfolding y rb by simp
  next
    case False
    then have "x \<le> - B" using assms(2) by simp
    then have "round_double x \<le> round_double (- B)" by (rule round_double_mono)
    then show ?thesis unfolding y round_double_minus rb by simp
  qed
qed

lemma double_of_halve:
  assumes "is_double a" "a = 0 \<or> 2 powr real_of_int (- 1021) \<le> \<bar>a\<bar>"
  shows "double_of (a / 2) = Fin (a / 2)"
proof (cases "a = 0")
  case True
  then show ?thesis using is_double_zero by (simp add: is_double_def)
next
  case False
  then have "is_double (a / 2)" using assms by (intro is_double_half) simp_all
  then show ?thesis by (simp add: is_double_def)
qed

lemma quantum_lower:
  assumes "2 powr real_of_int n \<le> \<bar>v\<bar>" "- 1022 \<le> n"
  shows "2 powr real_of_int (n - 52) \<le> quantum v"
  unfolding quantum_def using exponent_normal [OF assms] by (intro p2_mono) simp

lemma double_of_absorb:
  assumes "is_double v" "2 powr real_of_int (- 11) \<le> \<bar>v\<bar>"
    and "\<bar>t\<bar> \<le> 2 powr real_of_int (- 1021)"
  shows "double_of (v + t) = Fin v"
proof -
  have fixed: "round_double v = v" and fin: "\<bar>v\<bar> < 2 ^ 1024"
    using assms(1) by (simp_all add: is_double_iff)
  have "(2::real) powr real_of_int (- 1021) \<le> 2 powr real_of_int (- 11)"
    by (intro p2_mono) simp
  then have big: "2 powr real_of_int (- 1021) \<le> \<bar>v\<bar>" using assms(2) by linarith
  have q: "2 powr real_of_int (- 11 - 52) \<le> quantum v"
    using assms(2) by (intro quantum_lower) simp_all
  have B: "(2::real) powr real_of_int (- 1021 + 3) \<le> 2 powr real_of_int (- 11 - 52)"
    by (intro p2_mono) simp
  have A: "(2::real) powr real_of_int (- 1021 + 3)
      = 2 powr real_of_int (- 1021) * 2 powr real_of_int 3"
    by (rule p2_add)
  have A2: "(2::real) powr real_of_int 3 = 8" by simp
  have "2 powr real_of_int (- 1021) * 8 \<le> quantum v"
    using A [unfolded A2] B q by linarith
  then have "\<bar>t\<bar> \<le> quantum v / 8" using assms(3) by linarith
  then have "round_double (v + t) = v" using fixed big by (intro round_double_absorb)
  then show ?thesis using fin double_of_finite [of "v + t"] by simp
qed

lemma small_power: "(2::real) powr real_of_int (- 9) < 1 / 200"
proof -
  have "(2::real) powr real_of_int (- 9) = 1 / 2 ^ 9" by (simp add: powr_neg_numeral)
  then show ?thesis by simp
qed

lemma round2_tiny:
  assumes "\<bar>x\<bar> \<le> 2 powr real_of_int (- 9)"
  shows "round2 x = 0"
  using assms small_power by (intro round2_small) simp

text \<open>
  The two float expressions of the middle of two doubles \<open>a\<close> and \<open>b\<close>: the sum of the
  halves, \<open>a * 0.5 + b * 0.5\<close>, and the half of the sum, \<open>(a + b) / 2\<close>. When the sum
  does not overflow, they are the same double, or two doubles so small that both round
  to zero at two decimal places.
\<close>

lemma half_sum_exact:
  assumes "is_double a" "is_double b"
    and "a = 0 \<or> 2 powr real_of_int (- 1021) \<le> \<bar>a\<bar>"
    and "b = 0 \<or> 2 powr real_of_int (- 1021) \<le> \<bar>b\<bar>"
  shows "fadd (double_of (a / 2)) (double_of (b / 2)) = double_of ((a + b) / 2)"
  using double_of_halve [OF assms(1,3)] double_of_halve [OF assms(2,4)]
  by (simp add: add_divide_distrib)

lemma half_sum_normal:
  assumes "is_double a" "is_double b" "double_of (a + b) = Fin y"
    and "a = 0 \<or> 2 powr real_of_int (- 1021) \<le> \<bar>a\<bar>"
    and "b = 0 \<or> 2 powr real_of_int (- 1021) \<le> \<bar>b\<bar>"
  shows "\<exists>p q. fadd (double_of (a / 2)) (double_of (b / 2)) = Fin p
               \<and> double_of (y / 2) = Fin q \<and> is_double p \<and> is_double q
               \<and> round2 p = round2 q"
proof -
  have P: "fadd (double_of (a / 2)) (double_of (b / 2)) = double_of ((a + b) / 2)"
    using assms(1,2,4,5) by (rule half_sum_exact)
  have y: "y = round_double (a + b)" "\<bar>y\<bar> < 2 ^ 1024"
    using double_of_Fin [OF assms(3)] by blast+
  have dy: "is_double y" using assms(3) by (rule is_double_round)
  have tiny: "is_double (2 powr real_of_int (- 1021))" by (intro is_double_power2) simp_all
  show ?thesis
  proof (cases "2 powr real_of_int (- 1021) \<le> \<bar>a + b\<bar>")
    case True
    have "round_double ((a + b) / 2) = y / 2" unfolding y(1) using True by (rule round_double_half)
    moreover have "\<bar>y / 2\<bar> < 2 ^ 1024" using y(2) by simp
    ultimately have p: "double_of ((a + b) / 2) = Fin (y / 2)"
      using double_of_finite [of "(a + b) / 2"] by simp
    have "2 powr real_of_int (- 1021) \<le> \<bar>y\<bar>"
      using tiny True assms(3) by (rule double_of_abs_lower)
    then have "is_double (y / 2)" using dy by (intro is_double_half)
    then have q: "double_of (y / 2) = Fin (y / 2)" by (simp add: is_double_def)
    have "fadd (double_of (a / 2)) (double_of (b / 2)) = Fin (y / 2)" unfolding P by (rule p)
    then show ?thesis using q \<open>is_double (y / 2)\<close> by blast
  next
    case False
    define T :: real where "T = 2 powr real_of_int (- 1021)"
    have T9: "T \<le> 2 powr real_of_int (- 9)" unfolding T_def by (intro p2_mono) simp
    have dT: "is_double T" unfolding T_def by (rule tiny)
    have small: "\<bar>a + b\<bar> \<le> T" using False by (simp add: T_def)
    then have "\<bar>(a + b) / 2\<bar> \<le> T" by simp
    then obtain p where p: "double_of ((a + b) / 2) = Fin p" "\<bar>p\<bar> \<le> T" "is_double p"
      using double_of_abs_bound [OF dT] by blast
    obtain y' where "double_of (a + b) = Fin y'" "\<bar>y'\<bar> \<le> T"
      using double_of_abs_bound [OF dT small] by blast
    then have "\<bar>y\<bar> \<le> T" using assms(3) by simp
    then have "\<bar>y / 2\<bar> \<le> T" by simp
    then obtain q where q: "double_of (y / 2) = Fin q" "\<bar>q\<bar> \<le> T" "is_double q"
      using double_of_abs_bound [OF dT] by blast
    have "round2 p = 0" using p(2) T9 by (intro round2_tiny) simp
    moreover have "round2 q = 0" using q(2) T9 by (intro round2_tiny) simp
    ultimately have "round2 p = round2 q" by simp
    moreover have "fadd (double_of (a / 2)) (double_of (b / 2)) = Fin p" unfolding P by (rule p(1))
    ultimately show ?thesis using p(3) q(1,3) by blast
  qed
qed

lemma half_sum_small:
  assumes "\<bar>a\<bar> \<le> 2 powr real_of_int (- 10)" "\<bar>b\<bar> \<le> 2 powr real_of_int (- 10)"
    and "double_of (a + b) = Fin y"
  shows "\<exists>p q. fadd (double_of (a / 2)) (double_of (b / 2)) = Fin p
               \<and> double_of (y / 2) = Fin q \<and> is_double p \<and> is_double q
               \<and> round2 p = round2 q"
proof -
  define U :: real where "U = 2 powr real_of_int (- 10)"
  define V :: real where "V = 2 powr real_of_int (- 9)"
  have dU: "is_double U" unfolding U_def by (intro is_double_power2) simp_all
  have dV: "is_double V" unfolding V_def by (intro is_double_power2) simp_all
  have VU: "V = 2 * U" unfolding U_def V_def using p2_succ [of "- 10"] by simp
  have U0: "0 < U" unfolding U_def by simp
  have a: "\<bar>a\<bar> \<le> U" and b: "\<bar>b\<bar> \<le> U" using assms(1,2) by (simp_all add: U_def)
  have "\<bar>a / 2\<bar> \<le> U" using a by simp
  then obtain pa where pa: "double_of (a / 2) = Fin pa" "\<bar>pa\<bar> \<le> U"
    using double_of_abs_bound [OF dU] by blast
  have "\<bar>b / 2\<bar> \<le> U" using b by simp
  then obtain pb where pb: "double_of (b / 2) = Fin pb" "\<bar>pb\<bar> \<le> U"
    using double_of_abs_bound [OF dU] by blast
  have "\<bar>pa + pb\<bar> \<le> V" using pa(2) pb(2) VU by linarith
  then obtain p where p: "double_of (pa + pb) = Fin p" "\<bar>p\<bar> \<le> V" "is_double p"
    using double_of_abs_bound [OF dV] by blast
  have "\<bar>a + b\<bar> \<le> V" using a b VU by linarith
  then obtain y' where "double_of (a + b) = Fin y'" "\<bar>y'\<bar> \<le> V"
    using double_of_abs_bound [OF dV] by blast
  then have "\<bar>y\<bar> \<le> V" using assms(3) by simp
  then have "\<bar>y / 2\<bar> \<le> V" using U0 VU by simp
  then obtain q where q: "double_of (y / 2) = Fin q" "\<bar>q\<bar> \<le> V" "is_double q"
    using double_of_abs_bound [OF dV] by blast
  have "round2 p = 0" using p(2) unfolding V_def by (rule round2_tiny)
  moreover have "round2 q = 0" using q(2) unfolding V_def by (rule round2_tiny)
  ultimately have "round2 p = round2 q" by simp
  moreover have "fadd (double_of (a / 2)) (double_of (b / 2)) = Fin p"
    unfolding pa(1) pb(1) using p(1) by simp
  ultimately show ?thesis using p(3) q(1,3) by blast
qed

lemma half_sum_absorbed:
  assumes "is_double v" "2 powr real_of_int (- 10) \<le> \<bar>v\<bar>"
    and "\<bar>t\<bar> \<le> 2 powr real_of_int (- 1021)"
  shows "double_of (v + t) = Fin v"
    and "\<exists>pt. double_of (t / 2) = Fin pt \<and> double_of (v / 2 + pt) = Fin (v / 2)"
    and "double_of (v / 2) = Fin (v / 2)" and "is_double (v / 2)"
proof -
  define T :: real where "T = 2 powr real_of_int (- 1021)"
  have dT: "is_double T" unfolding T_def by (intro is_double_power2) simp_all
  have "(2::real) powr real_of_int (- 11) \<le> 2 powr real_of_int (- 10)"
    by (intro p2_mono) simp
  then have v11: "2 powr real_of_int (- 11) \<le> \<bar>v\<bar>" using assms(2) by linarith
  show "double_of (v + t) = Fin v" using assms(1) v11 assms(3) by (rule double_of_absorb)
  have "(2::real) powr real_of_int (- 1021) \<le> 2 powr real_of_int (- 10)"
    by (intro p2_mono) simp
  then have vT: "2 powr real_of_int (- 1021) \<le> \<bar>v\<bar>" using assms(2) by linarith
  show h: "is_double (v / 2)" using assms(1) vT by (rule is_double_half)
  then show "double_of (v / 2) = Fin (v / 2)" by (simp add: is_double_def)
  have "\<bar>t / 2\<bar> \<le> T" using assms(3) by (simp add: T_def)
  then obtain pt where pt: "double_of (t / 2) = Fin pt" "\<bar>pt\<bar> \<le> T"
    using double_of_abs_bound [OF dT] by blast
  have "2 powr real_of_int (- 11) \<le> \<bar>v / 2\<bar>"
    using assms(2) p2_succ [of "- 11"] by simp
  then have "double_of (v / 2 + pt) = Fin (v / 2)"
    using h pt(2) unfolding T_def by (intro double_of_absorb)
  then show "\<exists>pt. double_of (t / 2) = Fin pt \<and> double_of (v / 2 + pt) = Fin (v / 2)"
    using pt(1) by blast
qed

lemma half_sum_agree:
  assumes "is_double a" "is_double b" "double_of (a + b) = Fin y"
  shows "\<exists>p q. fadd (double_of (a / 2)) (double_of (b / 2)) = Fin p
               \<and> double_of (y / 2) = Fin q \<and> is_double p \<and> is_double q
               \<and> round2 p = round2 q"
proof -
  define T :: real where "T = 2 powr real_of_int (- 1021)"
  define U :: real where "U = 2 powr real_of_int (- 10)"
  have TU: "T \<le> U" unfolding T_def U_def by (intro p2_mono) simp
  consider (normal) "(a = 0 \<or> T \<le> \<bar>a\<bar>) \<and> (b = 0 \<or> T \<le> \<bar>b\<bar>)"
    | (small) "\<bar>a\<bar> \<le> U \<and> \<bar>b\<bar> \<le> U"
    | (left) "\<bar>a\<bar> \<le> T" "U \<le> \<bar>b\<bar>"
    | (right) "\<bar>b\<bar> \<le> T" "U \<le> \<bar>a\<bar>"
    using TU by linarith
  then show ?thesis
  proof cases
    case normal
    then show ?thesis using assms unfolding T_def by (intro half_sum_normal) simp_all
  next
    case small
    then show ?thesis using assms(3) unfolding U_def by (intro half_sum_small) simp_all
  next
    case left
    note h = half_sum_absorbed [OF assms(2) left(2) [unfolded U_def] left(1) [unfolded T_def]]
    from h(2) obtain pt where pt: "double_of (a / 2) = Fin pt"
      "double_of (b / 2 + pt) = Fin (b / 2)" by blast
    have "double_of (a + b) = Fin b" using h(1) by (simp add: add.commute)
    then have y: "y = b" using assms(3) by simp
    have "fadd (double_of (a / 2)) (double_of (b / 2)) = Fin (b / 2)"
      using pt h(3) by (simp add: add.commute)
    moreover have "double_of (y / 2) = Fin (b / 2)" unfolding y by (rule h(3))
    ultimately show ?thesis using h(4) by blast
  next
    case right
    note h = half_sum_absorbed [OF assms(1) right(2) [unfolded U_def] right(1) [unfolded T_def]]
    from h(2) obtain pt where pt: "double_of (b / 2) = Fin pt"
      "double_of (a / 2 + pt) = Fin (a / 2)" by blast
    have y: "y = a" using h(1) assms(3) by simp
    have "fadd (double_of (a / 2)) (double_of (b / 2)) = Fin (a / 2)"
      using pt h(3) by simp
    moreover have "double_of (y / 2) = Fin (a / 2)" unfolding y by (rule h(3))
    ultimately show ?thesis using h(4) by blast
  qed
qed

section \<open>The percentile with exact weights\<close>

lemma py_mul_float: "py_mul a (PyFloat y) = and_then (as_double a) (\<lambda>x. Inr (PyFloat (fmul x y)))"
  by (cases a) simp_all

lemma py_sub_int_float:
  "py_sub (PyInt c) (PyFloat (Fin k)) =
     and_then (int_to_double c) (\<lambda>x. Inr (PyFloat (fadd x (Fin (- k)))))"
  by simp

lemma py_sub_float_int:
  "py_sub (PyFloat (Fin k)) (PyInt f) =
     and_then (int_to_double f) (\<lambda>y. Inr (PyFloat (fadd (Fin k) (fneg y))))"
  by simp

lemma as_double_exact: "exact x \<Longrightarrow> as_double (as_pynum x) = Inr (Fin (number_value x))"
  by (cases x) (simp_all add: exact_def int_to_double_exact)

lemma round2_double_int:
  assumes "is_double p" "2 ^ 53 \<le> \<bar>p\<bar>"
  shows "\<exists>i. p = real_of_int i"
proof -
  have p0: "p \<noteq> 0" using assms(2) by auto
  have "(2::real) powr real_of_int 53 = 2 ^ 53" by (simp add: p2_nat)
  then have "2 powr real_of_int 53 \<le> \<bar>p\<bar>" using assms(2) by simp
  then have "53 \<le> exponent p" by (intro exponent_normal) simp_all
  then have "0 \<le> exponent p - 52" by simp
  then have q: "quantum p = real_of_int (2 ^ nat (exponent p - 52))"
    unfolding quantum_def by (rule p2_nat)
  have "p = round_double p" using assms(1) by (simp add: is_double_iff)
  also have "\<dots> = real_of_int (round_half_even (p / quantum p)) * quantum p"
    using p0 by (simp add: round_double_def)
  also have "\<dots> = real_of_int (round_half_even (p / quantum p) * 2 ^ nat (exponent p - 52))"
    unfolding q by simp
  finally show ?thesis by blast
qed

lemma round2_finite:
  assumes "is_double p"
  shows "\<exists>z. double_of (round2 p) = Fin z \<and> is_double z"
proof (cases "\<bar>p\<bar> \<le> 2 ^ 53")
  case True
  have B: "is_double (real_of_int (2 ^ 53))" by (intro is_double_int) simp
  have "round2 p \<le> round2 (real_of_int (2 ^ 53))" using True by (intro round2_mono) simp
  moreover have "round2 (real_of_int (- (2 ^ 53))) \<le> round2 p"
    using True by (intro round2_mono) simp
  ultimately have "\<bar>round2 p\<bar> \<le> real_of_int (2 ^ 53)"
    unfolding round2_of_int by simp
  from double_of_abs_bound [OF B this] show ?thesis by blast
next
  case False
  then obtain i where "p = real_of_int i" using round2_double_int [OF assms] by auto
  then have "round2 p = p" by (simp add: round2_of_int)
  then show ?thesis using assms by (auto simp: is_double_def)
qed

lemma py_round2_finite:
  assumes "is_double p"
  shows "\<exists>z. py_round2 (PyFloat (Fin p)) = Inr (PyFloat (Fin z))
             \<and> z = round_double (round2 p) \<and> is_double z"
proof -
  obtain z where z: "double_of (round2 p) = Fin z" "is_double z"
    using round2_finite [OF assms] by blast
  then have "z = round_double (round2 p)" using double_of_Fin [of "round2 p" z] by simp
  then show ?thesis using z by simp
qed

lemma py_round2_number:
  assumes "exact x"
  shows "\<exists>r. py_round2 (as_pynum x) = Inr r \<and> is_finite r"
proof (cases x)
  case (NInt i)
  then show ?thesis by simp
next
  case (NFloat p)
  then have "is_double p" using assms by (simp add: exact_def)
  from py_round2_finite [OF this] show ?thesis unfolding NFloat by auto
qed

lemma calculate_percentile_exact:
  assumes "S \<noteq> []" "int (length S) \<le> 2 ^ 53"
    and "0 \<le> number_value p" "number_value p \<le> 100"
    and "float_rank (length S) p = k"
    and "\<lfloor>k\<rfloor> \<noteq> \<lceil>k\<rceil>"
    and "is_double (real_of_int \<lceil>k\<rceil> - k)" "is_double (k - real_of_int \<lfloor>k\<rfloor>)"
    and "exact (sort_key number_value S ! nat \<lfloor>k\<rfloor>)"
    and "exact (sort_key number_value S ! nat \<lceil>k\<rceil>)"
  shows "calculate_percentile S p =
     and_then (py_round2 (PyFloat (fadd
         (double_of (number_value (sort_key number_value S ! nat \<lfloor>k\<rfloor>)
                       * (real_of_int \<lceil>k\<rceil> - k)))
         (double_of (number_value (sort_key number_value S ! nat \<lceil>k\<rceil>)
                       * (k - real_of_int \<lfloor>k\<rfloor>))))))
       (\<lambda>r. Inr (Some r))"
proof -
  define n where "n = length S"
  have pos: "0 < n" using assms(1) by (simp add: n_def)
  have n53: "int n \<le> 2 ^ 53" using assms(2) by (simp add: n_def)
  have kb: "0 \<le> k" "k \<le> real (n - 1)"
    using float_rank_bounds [OF pos n53 assms(3,4)] assms(5) by (simp_all add: n_def)
  have f0: "0 \<le> \<lfloor>k\<rfloor>" using kb(1) by simp
  have "\<lceil>k\<rceil> \<le> int (n - 1)" using kb(2) by (simp add: ceiling_le_iff)
  then have c1: "\<lceil>k\<rceil> \<le> 2 ^ 53" using n53 by linarith
  have fc: "\<lfloor>k\<rfloor> \<le> \<lceil>k\<rceil>" by (rule floor_le_ceiling)
  have "\<bar>\<lceil>k\<rceil>\<bar> \<le> 2 ^ 53" using c1 f0 fc by linarith
  then have "is_double (real_of_int \<lceil>k\<rceil>)" by (rule is_double_int)
  then have ic: "int_to_double \<lceil>k\<rceil> = Inr (Fin (real_of_int \<lceil>k\<rceil>))"
    by (rule int_to_double_exact)
  have "\<bar>\<lfloor>k\<rfloor>\<bar> \<le> 2 ^ 53" using c1 f0 fc by linarith
  then have "is_double (real_of_int \<lfloor>k\<rfloor>)" by (rule is_double_int)
  then have "int_to_double \<lfloor>k\<rfloor> = Inr (Fin (real_of_int \<lfloor>k\<rfloor>))"
    by (rule int_to_double_exact)
  then have wb: "py_sub (PyFloat (Fin k)) (PyInt \<lfloor>k\<rfloor>) = Inr (PyFloat (Fin (k - real_of_int \<lfloor>k\<rfloor>)))"
    unfolding py_sub_float_int using assms(8) by (simp add: is_double_def)
  have wa: "py_sub (PyInt \<lceil>k\<rceil>) (PyFloat (Fin k)) = Inr (PyFloat (Fin (real_of_int \<lceil>k\<rceil> - k)))"
    unfolding py_sub_int_float ic using assms(7) by (simp add: is_double_def)
  show ?thesis
    unfolding calculate_percentile_body [OF assms(1,2,3,4)] assms(5)
    using assms(6)
    by (simp add: wa wb py_mul_float as_double_exact [OF assms(9)] as_double_exact [OF assms(10)]
        del: py_sub.simps)
qed

lemma float_rank_50:
  assumes "0 < n" "int n \<le> 2 ^ 53"
  shows "float_rank n (NInt 50) = real (n - 1) / 2"
proof -
  have h: "round_double (1 / 2) = 1 / 2"
    using is_double_halves [of 1] by (simp add: is_double_iff)
  have "\<bar>int (n - 1)\<bar> < 2 ^ 53" using assms by simp
  then have "is_double (real_of_int (int (n - 1)) / 2)" by (rule is_double_halves)
  then have "round_double (real (n - 1) / 2) = real (n - 1) / 2"
    by (simp add: is_double_iff)
  then show ?thesis by (simp add: float_rank_def h)
qed

section \<open>The percentile at 50 and the median\<close>

lemma calculate_percentile_50_odd:
  assumes "S \<noteq> []" "int (length S) \<le> 2 ^ 53" "odd (length S)"
  shows "calculate_percentile S (NInt 50) =
           and_then (py_round2 (as_pynum (upper_middle S))) (\<lambda>r. Inr (Some r))"
proof -
  define m where "m = length S div 2"
  have n: "length S = 2 * m + 1" using assms(3) unfolding m_def by presburger
  have pos: "0 < length S" using assms(1) by simp
  have "float_rank (length S) (NInt 50) = real (length S - 1) / 2"
    using pos assms(2) by (rule float_rank_50)
  then have k: "float_rank (length S) (NInt 50) = real m" by (simp add: n)
  show ?thesis
    unfolding calculate_percentile_body [OF assms(1,2), of "NInt 50", simplified] k
    by (simp add: upper_middle_def m_def)
qed

lemma calculate_median_odd:
  assumes "S \<noteq> []" "odd (length S)"
  shows "calculate_median S =
           and_then (py_round2 (as_pynum (upper_middle S))) (\<lambda>r. Inr (Some r))"
  unfolding calculate_median_body [OF assms(1)] using assms(2) by (simp add: upper_middle_def)

lemma calculate_percentile_50_even:
  assumes "S \<noteq> []" "int (length S) \<le> 2 ^ 53" "even (length S)"
    and "exact (lower_middle S)" "exact (upper_middle S)"
  shows "calculate_percentile S (NInt 50) =
           and_then (py_round2 (PyFloat (fadd
               (double_of (number_value (lower_middle S) / 2))
               (double_of (number_value (upper_middle S) / 2)))))
             (\<lambda>r. Inr (Some r))"
proof -
  define m where "m = length S div 2"
  define k where "k = real m - 1 / 2"
  have n: "length S = 2 * m" using assms(3) unfolding m_def by presburger
  have pos: "0 < length S" using assms(1) by simp
  then have m1: "1 \<le> m" using n by simp
  have "float_rank (length S) (NInt 50) = real (length S - 1) / 2"
    using pos assms(2) by (rule float_rank_50)
  also have "\<dots> = k" using m1 by (simp add: n k_def field_simps)
  finally have rank: "float_rank (length S) (NInt 50) = k" .
  have fl: "\<lfloor>k\<rfloor> = int m - 1"
    unfolding k_def by (rule floor_unique) simp_all
  have ce: "\<lceil>k\<rceil> = int m"
    unfolding k_def by (rule ceiling_unique) simp_all
  have nf: "nat \<lfloor>k\<rfloor> = m - 1" unfolding fl using m1 by simp
  have nc: "nat \<lceil>k\<rceil> = m" unfolding ce by simp
  have wa: "real_of_int \<lceil>k\<rceil> - k = 1 / 2" unfolding ce by (simp add: k_def)
  have wb: "k - real_of_int \<lfloor>k\<rfloor> = 1 / 2" unfolding fl by (simp add: k_def)
  have half: "is_double (1 / 2)" using is_double_halves [of 1] by simp
  have ne: "\<lfloor>k\<rfloor> \<noteq> \<lceil>k\<rceil>" unfolding fl ce by simp
  have ea: "exact (sort_key number_value S ! nat \<lfloor>k\<rfloor>)"
    using assms(4) unfolding nf lower_middle_def m_def .
  have eb: "exact (sort_key number_value S ! nat \<lceil>k\<rceil>)"
    using assms(5) unfolding nc upper_middle_def m_def .
  have p0: "0 \<le> number_value (NInt 50)" "number_value (NInt 50) \<le> 100" by simp_all
  show ?thesis
    unfolding calculate_percentile_exact
      [OF assms(1,2) p0 rank ne half [folded wa] half [folded wb] ea eb]
    unfolding wa wb nf nc lower_middle_def upper_middle_def m_def by simp
qed

lemma py_add_exact:
  assumes "exact a" "exact b" "\<not> (\<exists>i j. a = NInt i \<and> b = NInt j)"
  shows "py_add (as_pynum a) (as_pynum b) =
           Inr (PyFloat (double_of (number_value a + number_value b)))"
  using assms by (cases a; cases b) (simp_all add: exact_def int_to_double_exact)

lemma py_truediv_two: "py_truediv (PyFloat (Fin y)) (PyInt 2) = Inr (PyFloat (double_of (y / 2)))"
proof -
  have "is_double (real_of_int 2)" by (intro is_double_int) simp
  then have "int_to_double 2 = Inr (Fin (real_of_int 2))" by (rule int_to_double_exact)
  then show ?thesis by simp
qed

lemma exact_int_halvable:
  assumes "exact (NInt i)"
  shows "is_double (real_of_int i)"
    and "real_of_int i = 0 \<or> 2 powr real_of_int (- 1021) \<le> \<bar>real_of_int i\<bar>"
proof -
  show "is_double (real_of_int i)" using assms by (simp add: exact_def)
  have "(2::real) powr real_of_int (- 1021) \<le> 2 powr real_of_int 0" by (intro p2_mono) simp
  then have "(2::real) powr real_of_int (- 1021) \<le> 1" by simp
  moreover have "i = 0 \<or> 1 \<le> \<bar>i\<bar>" by linarith
  then have "real_of_int i = 0 \<or> 1 \<le> \<bar>real_of_int i\<bar>"
    by (auto simp del: of_int_abs simp: of_int_abs [symmetric])
  ultimately show "real_of_int i = 0 \<or> 2 powr real_of_int (- 1021) \<le> \<bar>real_of_int i\<bar>"
    by linarith
qed

lemma middle_of_ints:
  assumes "exact (NInt i)" "exact (NInt j)"
  shows "\<exists>z. fadd (double_of (real_of_int i / 2)) (double_of (real_of_int j / 2)) = Fin z
             \<and> double_of (real_of_int (i + j) / real_of_int 2) = Fin z \<and> is_double z"
proof -
  note hi = exact_int_halvable [OF assms(1)]
  note hj = exact_int_halvable [OF assms(2)]
  define B where "B = max \<bar>real_of_int i\<bar> \<bar>real_of_int j\<bar>"
  have dB: "is_double B"
    unfolding B_def using hi(1) hj(1) is_double_minus [of "real_of_int i"]
      is_double_minus [of "real_of_int j"]
    by (auto simp: max_def abs_if simp del: of_int_abs)
  have "\<bar>(real_of_int i + real_of_int j) / 2\<bar> \<le> B" unfolding B_def by (simp add: max_def) linarith
  then obtain z where z: "double_of ((real_of_int i + real_of_int j) / 2) = Fin z" "is_double z"
    using double_of_abs_bound [OF dB] by blast
  have "fadd (double_of (real_of_int i / 2)) (double_of (real_of_int j / 2))
          = double_of ((real_of_int i + real_of_int j) / 2)"
    using hi(1) hj(1) hi(2) hj(2) by (rule half_sum_exact)
  then show ?thesis using z by simp
qed

lemma percentile_50_median_even:
  assumes "S \<noteq> []" "int (length S) \<le> 2 ^ 53" "even (length S)"
    and "exact (lower_middle S)" "exact (upper_middle S)"
    and "(\<exists>i j. lower_middle S = NInt i \<and> upper_middle S = NInt j)
         \<or> (\<exists>y. double_of (number_value (lower_middle S) + number_value (upper_middle S)) = Fin y)"
  shows "\<exists>v. calculate_median S = Inr (Some v)
             \<and> calculate_percentile S (NInt 50) = Inr (Some v) \<and> is_finite v"
proof -
  define a where "a = lower_middle S"
  define b where "b = upper_middle S"
  have P: "calculate_percentile S (NInt 50) =
           and_then (py_round2 (PyFloat (fadd (double_of (number_value a / 2))
                                              (double_of (number_value b / 2)))))
             (\<lambda>r. Inr (Some r))"
    unfolding a_def b_def using assms(1-5) by (rule calculate_percentile_50_even)
  have M: "calculate_median S =
           and_then (py_add (as_pynum a) (as_pynum b)) (\<lambda>t.
           and_then (py_truediv t (PyInt 2)) (\<lambda>q.
           and_then (py_round2 q) (\<lambda>r. Inr (Some r))))"
    unfolding calculate_median_body [OF assms(1)] a_def b_def lower_middle_def upper_middle_def
    using assms(3) by simp
  have ea: "exact a" and eb: "exact b" using assms(4,5) by (simp_all add: a_def b_def)
  show ?thesis
  proof (cases "\<exists>i j. a = NInt i \<and> b = NInt j")
    case True
    then obtain i j where ij: "a = NInt i" "b = NInt j" by blast
    obtain z where z: "fadd (double_of (real_of_int i / 2)) (double_of (real_of_int j / 2)) = Fin z"
        "double_of (real_of_int (i + j) / real_of_int 2) = Fin z" "is_double z"
      using middle_of_ints [of i j] ea eb unfolding ij by blast
    obtain w where w: "py_round2 (PyFloat (Fin z)) = Inr (PyFloat (Fin w))"
      using py_round2_finite [OF z(3)] by blast
    have "calculate_percentile S (NInt 50) = Inr (Some (PyFloat (Fin w)))"
      unfolding P ij using z(1) w by simp
    moreover have "calculate_median S = Inr (Some (PyFloat (Fin w)))"
      unfolding M ij using z(2) w by (simp del: of_int_add)
    ultimately show ?thesis by simp
  next
    case False
    then obtain y where y: "double_of (number_value a + number_value b) = Fin y"
      using assms(6) unfolding a_def b_def by blast
    have da: "is_double (number_value a)" and db: "is_double (number_value b)"
      using ea eb by (simp_all add: exact_def)
    obtain p q where pq: "fadd (double_of (number_value a / 2)) (double_of (number_value b / 2)) = Fin p"
        "double_of (y / 2) = Fin q" "is_double p" "is_double q" "round2 p = round2 q"
      using half_sum_agree [OF da db y] by blast
    obtain w where w: "py_round2 (PyFloat (Fin q)) = Inr (PyFloat (Fin w))"
      using py_round2_finite [OF pq(4)] by blast
    then have w': "py_round2 (PyFloat (Fin p)) = Inr (PyFloat (Fin w))"
      by (simp add: pq(5))
    have "calculate_percentile S (NInt 50) = Inr (Some (PyFloat (Fin w)))"
      unfolding P pq(1) w' by simp
    moreover have "calculate_median S = Inr (Some (PyFloat (Fin w)))"
      unfolding M py_add_exact [OF ea eb False] y and_then_Inr py_truediv_two pq(2) w by simp
    ultimately show ?thesis by simp
  qed
qed

lemma is_double_pow: "n \<le> 1023 \<Longrightarrow> is_double (2 ^ n)"
proof -
  assume "n \<le> 1023"
  then have "is_double (2 powr real_of_int (int n))" by (intro is_double_power2) simp_all
  then show ?thesis by (simp add: powr_realpow)
qed

text \<open>
  Claim C3, as stated, fails when the sum of the two central elements overflows: the
  median halves the sum, the percentile adds the halves. For the sequence of the double
  \<open>2 ^ 1023\<close> (about \<open>8.99e307\<close>) taken twice, the sum is infinite and so is the
  median, while the percentile at 50 is \<open>2 ^ 1023\<close>.
\<close>

theorem median_overflow_counterexample:
  "exact (NFloat (2 ^ 1023))
   \<and> calculate_median [NFloat (2 ^ 1023), NFloat (2 ^ 1023)] = Inr (Some (PyFloat PosInf))
   \<and> calculate_percentile [NFloat (2 ^ 1023), NFloat (2 ^ 1023)] (NInt 50)
       = Inr (Some (PyFloat (Fin (2 ^ 1023))))"
proof -
  define a :: real where "a = 2 ^ 1023"
  define S where "S = [NFloat a, NFloat a]"
  have da: "is_double a" unfolding a_def by (intro is_double_pow) simp
  have ea: "exact (NFloat a)" using da by (simp add: exact_def)
  have big: "2 ^ 1024 \<le> a + a" by (simp add: a_def)
  have sum: "double_of (2 * a) = PosInf" using big by (intro double_of_overflow) simp
  have a1: "1 \<le> a" by (simp add: a_def)
  have "(2::real) powr real_of_int (- 1021) \<le> 2 powr real_of_int 0" by (intro p2_mono) simp
  then have norm: "a = 0 \<or> 2 powr real_of_int (- 1021) \<le> \<bar>a\<bar>" using a1 by simp
  have half: "double_of (a / 2) = Fin (a / 2)" using da norm by (rule double_of_halve)
  have "a = real_of_int (2 ^ 1023)" by (simp add: a_def)
  then have "round2 a = a" using round2_of_int [of "2 ^ 1023"] by simp
  then have rnd: "py_round2 (PyFloat (Fin a)) = Inr (PyFloat (Fin a))"
    using da by (simp add: is_double_def)
  have two: "int_to_double 2 = Inr (Fin 2)"
    using int_to_double_exact [of 2] is_double_int [of 2] by simp
  have srt: "sort_key number_value S = S" by (simp add: S_def)
  have lo: "lower_middle S = NFloat a" and up: "upper_middle S = NFloat a"
    by (simp_all add: lower_middle_def upper_middle_def srt) (simp_all add: S_def)
  have ne: "S \<noteq> []" and len: "int (length S) \<le> 2 ^ 53" and ev: "even (length S)"
    by (simp_all add: S_def)
  have M: "calculate_median S = Inr (Some (PyFloat PosInf))"
    unfolding calculate_median_body [OF ne] srt
    by (simp add: S_def sum two)
  have "fadd (Fin (a / 2)) (Fin (a / 2)) = Fin a" using da by (simp add: is_double_def)
  then have P: "calculate_percentile S (NInt 50) = Inr (Some (PyFloat (Fin a)))"
    unfolding calculate_percentile_50_even [OF ne len ev ea [folded lo] ea [folded up]] lo up
    by (simp add: half rnd del: fadd.simps py_round2.simps)
  show ?thesis using ea M P unfolding S_def a_def by (intro conjI)
qed

text \<open>
  Claim C3, amended: the percentile at 50 and the median are both \<open>None\<close> for the empty
  sequence. For a sequence \<open>S\<close> of at most \<open>2 ^ 53\<close> numbers that is not empty:
  \<^item> if the length of \<open>S\<close> is odd, the two computations are the same (the central
    element, rounded to two decimal places), and they yield the same finite number
    when the central element is exact;
  \<^item> if the length of \<open>S\<close> is even, the two central elements are exact, and either both
    are \<open>int\<close>s or their float sum does not overflow, the two computations yield the
    same finite number.

  A number is exact when a float holds its value: every float is, and so is every
  \<open>int\<close> of magnitude up to \<open>2 ^ 53\<close>.
\<close>

theorem percentile_50_equals_median:
  "calculate_percentile [] (NInt 50) = Inr None
   \<and> calculate_median [] = Inr None
   \<and> (S \<noteq> [] \<and> int (length S) \<le> 2 ^ 53 \<and> odd (length S) \<longrightarrow>
        calculate_percentile S (NInt 50) = calculate_median S)
   \<and> (S \<noteq> [] \<and> int (length S) \<le> 2 ^ 53 \<and> odd (length S) \<and> exact (upper_middle S) \<longrightarrow>
        (\<exists>v. calculate_median S = Inr (Some v)
            \<and> calculate_percentile S (NInt 50) = Inr (Some v) \<and> is_finite v))
   \<and> (S \<noteq> [] \<and> int (length S) \<le> 2 ^ 53 \<and> even (length S)
        \<and> exact (lower_middle S) \<and> exact (upper_middle S)
        \<and> ((\<exists>i j. lower_middle S = NInt i \<and> upper_middle S = NInt j)
           \<or> (\<exists>y. double_of (number_value (lower_middle S) + number_value (upper_middle S))
                    = Fin y)) \<longrightarrow>
        (\<exists>v. calculate_median S = Inr (Some v)
            \<and> calculate_percentile S (NInt 50) = Inr (Some v) \<and> is_finite v))"
proof -
  have 1: "calculate_percentile [] (NInt 50) = Inr None" by (simp add: calculate_percentile_def)
  have 2: "calculate_median [] = Inr None" by (simp add: calculate_median_def)
  have 3: "S \<noteq> [] \<and> int (length S) \<le> 2 ^ 53 \<and> odd (length S) \<longrightarrow>
        calculate_percentile S (NInt 50) = calculate_median S"
    by (simp add: calculate_percentile_50_odd calculate_median_odd)
  have 4: "S \<noteq> [] \<and> int (length S) \<le> 2 ^ 53 \<and> odd (length S) \<and> exact (upper_middle S) \<longrightarrow>
        (\<exists>v. calculate_median S = Inr (Some v)
            \<and> calculate_percentile S (NInt 50) = Inr (Some v) \<and> is_finite v)"
  proof
    assume h: "S \<noteq> [] \<and> int (length S) \<le> 2 ^ 53 \<and> odd (length S) \<and> exact (upper_middle S)"
    then obtain r where "py_round2 (as_pynum (upper_middle S)) = Inr r" "is_finite r"
      using py_round2_number [of "upper_middle S"] by blast
    then show "\<exists>v. calculate_median S = Inr (Some v)
            \<and> calculate_percentile S (NInt 50) = Inr (Some v) \<and> is_finite v"
      using h by (simp add: calculate_percentile_50_odd calculate_median_odd)
  qed
  have 5: "S \<noteq> [] \<and> int (length S) \<le> 2 ^ 53 \<and> even (length S)
        \<and> exact (lower_middle S) \<and> exact (upper_middle S)
        \<and> ((\<exists>i j. lower_middle S = NInt i \<and> upper_middle S = NInt j)
           \<or> (\<exists>y. double_of (number_value (lower_middle S) + number_value (upper_middle S))
                    = Fin y)) \<longrightarrow>
        (\<exists>v. calculate_median S = Inr (Some v)
            \<and> calculate_percentile S (NInt 50) = Inr (Some v) \<and> is_finite v)"
    using percentile_50_median_even [of S] by blast
  show ?thesis using 1 2 3 4 5 by (intro conjI)
qed

text \<open>
  Claim C3, instance: the sequence \<open>[3, 1, 2]\<close> of odd length has the exact central
  element \<open>2\<close>, which is its median and its percentile at 50. The sequence
  \<open>[2.5, 1, 4, 1.5]\<close> of even length has the exact central elements \<open>1.5\<close> and \<open>2.5\<close>,
  whose sum is the double \<open>4.0\<close>; its median and its percentile at 50 are the same
  finite number.
\<close>

theorem percentile_50_equals_median_witness:
  "[NInt 3, NInt 1, NInt 2] \<noteq> [] \<and> int (length [NInt 3, NInt 1, NInt 2]) \<le> 2 ^ 53
   \<and> odd (length [NInt 3, NInt 1, NInt 2])
   \<and> upper_middle [NInt 3, NInt 1, NInt 2] = NInt 2 \<and> exact (NInt 2)
   \<and> calculate_percentile [NInt 3, NInt 1, NInt 2] (NInt 50)
       = calculate_median [NInt 3, NInt 1, NInt 2]
   \<and> calculate_median [NInt 3, NInt 1, NInt 2] = Inr (Some (PyInt 2))
   \<and> [NFloat (5 / 2), NInt 1, NInt 4, NFloat (3 / 2)] \<noteq> []
   \<and> int (length [NFloat (5 / 2), NInt 1, NInt 4, NFloat (3 / 2)]) \<le> 2 ^ 53
   \<and> even (length [NFloat (5 / 2), NInt 1, NInt 4, NFloat (3 / 2)])
   \<and> lower_middle [NFloat (5 / 2), NInt 1, NInt 4, NFloat (3 / 2)] = NFloat (3 / 2)
   \<and> upper_middle [NFloat (5 / 2), NInt 1, NInt 4, NFloat (3 / 2)] = NFloat (5 / 2)
   \<and> exact (NFloat (3 / 2)) \<and> exact (NFloat (5 / 2))
   \<and> double_of (3 / 2 + 5 / 2) = Fin 4
   \<and> (\<exists>v. calculate_median [NFloat (5 / 2), NInt 1, NInt 4, NFloat (3 / 2)] = Inr (Some v)
          \<and> calculate_percentile [NFloat (5 / 2), NInt 1, NInt 4, NFloat (3 / 2)] (NInt 50)
              = Inr (Some v)
          \<and> is_finite v)"
proof -
  define A where "A = [NInt 3, NInt 1, NInt 2]"
  define B where "B = [NFloat (5 / 2), NInt 1, NInt 4, NFloat (3 / 2)]"
  have a: "A \<noteq> []" "int (length A) \<le> 2 ^ 53" "odd (length A)" by (simp_all add: A_def)
  have ua: "upper_middle A = NInt 2" by (simp add: upper_middle_def A_def)
  have e2: "exact (NInt 2)" using is_double_int [of 2] by (simp add: exact_def)
  have b: "B \<noteq> []" "int (length B) \<le> 2 ^ 53" "even (length B)" by (simp_all add: B_def)
  have lb: "lower_middle B = NFloat (3 / 2)" by (simp add: lower_middle_def B_def)
  have ub: "upper_middle B = NFloat (5 / 2)" by (simp add: upper_middle_def B_def)
  have e3: "exact (NFloat (3 / 2))" using is_double_halves [of 3] by (simp add: exact_def)
  have e5: "exact (NFloat (5 / 2))" using is_double_halves [of 5] by (simp add: exact_def)
  have d4: "double_of (3 / 2 + 5 / 2) = Fin 4" using double_of_int [of 4] by simp
  have ma: "calculate_median A = Inr (Some (PyInt 2))"
    unfolding calculate_median_odd [OF a(1,3)] ua by simp
  note TA = percentile_50_equals_median [of A]
  note TB = percentile_50_equals_median [of B]
  have ca: "calculate_percentile A (NInt 50) = calculate_median A"
    using TA a by blast
  have cb: "\<exists>v. calculate_median B = Inr (Some v)
          \<and> calculate_percentile B (NInt 50) = Inr (Some v) \<and> is_finite v"
  proof -
    have "\<exists>y. double_of (number_value (lower_middle B) + number_value (upper_middle B)) = Fin y"
      unfolding lb ub using d4 by simp
    then show ?thesis using TB b e3 e5 unfolding lb [symmetric] ub [symmetric] by blast
  qed
  show ?thesis
    using a ua e2 ca ma b lb ub e3 e5 d4 cb unfolding A_def B_def by (intro conjI)
qed

section \<open>Properties of the queries\<close>

lemma get_numeric_values_Nil: "get_numeric_values [] feature conditions = []"
  by (simp add: get_numeric_values_def filter_data_def)

lemma fst_save_and_return: "fst (save_and_return m name files) = m"
  by (cases m) (simp_all add: save_and_return_def)

lemma most_frequent_nonempty:
  assumes "ages \<noteq> []"
  shows "sorted_list_of_set {x \<in> set ages. count_list ages x = Max (count_list ages ` set ages)}
           \<noteq> []"
proof -
  have "Max (count_list ages ` set ages) \<in> count_list ages ` set ages"
    using assms by (intro Max_in) simp_all
  then obtain x where "x \<in> set ages" "count_list ages x = Max (count_list ages ` set ages)"
    by auto
  then have "{x \<in> set ages. count_list ages x = Max (count_list ages ` set ages)} \<noteq> {}"
    by blast
  moreover have "finite {x \<in> set ages. count_list ages x = Max (count_list ages ` set ages)}"
    by simp
  ultimately show ?thesis by (simp only: sorted_list_of_set_eq_Nil_iff) simp
qed

lemma modal_values_total:
  "\<exists>modes. modal_values xs = Inr modes \<and> (xs \<noteq> [] \<longrightarrow> modes \<noteq> [])"
proof -
  define v where "v = map number_value xs"
  have m: "map (\<lambda>x. Some (number_value x)) xs = map Some v" by (simp add: v_def)
  have "xs \<noteq> [] \<longrightarrow>
      sorted_list_of_set {x \<in> set v. count_list v x = Max (count_list v ` set v)} \<noteq> []"
    using most_frequent_nonempty [of v] by (simp add: v_def)
  then show ?thesis
    unfolding modal_values_def m calculate_mode_value by simp
qed

lemma age_entries_full:
  assumes "ages \<noteq> []" "age_entries py ages = Inr entries"
  shows "full_age_dict entries"
proof -
  from assms(2) obtain average median modes where r:
    "calculate_mean py ages = Inr average" "calculate_median ages = Inr median"
    "modal_values ages = Inr modes"
    "entries = [(''count'', Atom (PInt (int (length ages)))),
                (''average_age'', num_obj average), (''median_age'', num_obj median),
                (''modal_age'', PList (map number_obj modes))]"
    unfolding age_entries_def by (auto simp: and_then_eq_Inr)
  obtain a where a: "average = Some a" using calculate_mean_Some [OF assms(1) r(1)] by blast
  obtain b where b: "median = Some b" using calculate_median_Some [OF assms(1) r(2)] by blast
  have mne: "modes \<noteq> []" using modal_values_total [of ages] r(3) assms(1) by auto
  have pos: "0 < int (length ages)" using assms(1) by simp
  have "entries = age_dict (int (length ages)) a b modes"
    unfolding r(4) a b age_dict_def by (rule refl)
  then show ?thesis unfolding full_age_dict_def using pos mne by blast
qed

lemma group_entry_empty: "group_entry py [] = Inr no_data_entry"
  by (simp add: group_entry_def no_data_entry_def)

lemma group_entry_shape:
  assumes "group_entry py ages = Inr e"
  shows "e = no_data_entry \<or> (\<exists>d. e = PDict d \<and> full_age_dict d)"
proof (cases "ages = []")
  case True
  then show ?thesis using assms by (simp add: group_entry_empty)
next
  case False
  then obtain entries where "age_entries py ages = Inr entries" "e = PDict entries"
    using assms by (auto simp: group_entry_def and_then_eq_Inr)
  then show ?thesis using age_entries_full [OF False] by blast
qed

lemma group_value_empty: "group_value py [] = no_data_entry"
  by (simp add: group_value_def group_entry_empty)

lemma group_value_eq: "group_entry py ages = Inr e \<Longrightarrow> group_value py ages = e"
  by (simp add: group_value_def)

lemma fill_result:
  assumes "fill f groups results = Inr d"
    and "\<And>g k e. g \<in> set groups \<Longrightarrow> f g = Inr (k, e) \<Longrightarrow> k = key g \<and> P e"
    and "\<forall>(k, v) \<in> set results. P v"
  shows "(\<forall>(k, v) \<in> set d. P v) \<and> fst ` set d = fst ` set results \<union> key ` set groups"
  using assms
proof (induction groups arbitrary: results)
  case Nil
  then show ?case by simp
next
  case (Cons g groups)
  from Cons.prems(1) obtain k e where
    fg: "f g = Inr (k, e)" and rest: "fill f groups (dict_set results k e) = Inr d"
    by (auto simp: and_then_eq_Inr)
  have ke: "k = key g" "P e" using Cons.prems(2) [of g k e] fg by simp_all
  have inv: "\<forall>(k, v) \<in> set (dict_set results k e). P v"
    using dict_set_subset [of results k e] Cons.prems(3) ke(2) by auto
  have step: "k' = key g' \<and> P e'" if "g' \<in> set groups" "f g' = Inr (k', e')" for g' k' e'
    using Cons.prems(2) [of g' k' e'] that by simp
  from Cons.IH [OF rest step inv]
  have "(\<forall>(k, v) \<in> set d. P v)"
    and "fst ` set d = fst ` set (dict_set results k e) \<union> key ` set groups"
    by simp_all
  then show ?case unfolding dict_set_keys ke(1) by auto
qed

lemma fill_distinct:
  assumes "fill (\<lambda>g. and_then (group_entry py (ages g)) (\<lambda>entry. Inr (key g, entry)))
             groups results = Inr d"
    and "distinct (map key groups)"
    and "key ` set groups \<inter> fst ` set results = {}"
  shows "d = results @ map (\<lambda>g. (key g, group_value py (ages g))) groups"
  using assms
proof (induction groups arbitrary: results)
  case Nil
  then show ?case by simp
next
  case (Cons g groups)
  from Cons.prems(1) obtain entry where
    e: "group_entry py (ages g) = Inr entry"
    and rest: "fill (\<lambda>g. and_then (group_entry py (ages g)) (\<lambda>entry. Inr (key g, entry)))
                 groups (dict_set results (key g) entry) = Inr d"
    by (auto simp: and_then_eq_Inr)
  have fresh: "key g \<notin> fst ` set results" using Cons.prems(3) by auto
  have set: "dict_set results (key g) entry = results @ [(key g, entry)]"
    by (rule dict_set_fresh [OF fresh])
  have dist: "distinct (map key groups)" using Cons.prems(2) by simp
  have "key ` set groups \<inter> fst ` set (results @ [(key g, entry)]) = {}"
    using Cons.prems(2,3) by auto
  from Cons.IH [OF rest [unfolded set] dist this] show ?case
    by (simp add: group_value_eq [OF e])
qed

lemma grouped_query_shape:
  fixes key :: "'g \<Rightarrow> string" and ages :: "'g \<Rightarrow> number list"
  assumes "fill (\<lambda>g. and_then (group_entry py (ages g)) (\<lambda>entry. Inr (key g, entry)))
             groups [] = Inr d"
  shows "(\<forall>(k, v) \<in> set d. v = no_data_entry \<or> (\<exists>e. v = PDict e \<and> full_age_dict e))
         \<and> fst ` set d = key ` set groups"
proof -
  let ?f = "\<lambda>g. and_then (group_entry py (ages g)) (\<lambda>entry. Inr (key g, entry))"
  let ?P = "\<lambda>v. v = no_data_entry \<or> (\<exists>e. v = PDict e \<and> full_age_dict e)"
  have step: "k = key g \<and> ?P e" if "?f g = Inr (k, e)" for g k e
    using that group_entry_shape [of py "ages g" e] by (auto simp: and_then_eq_Inr)
  have init: "\<forall>(k, v) \<in> set ([] :: (string \<times> pyobj) list). ?P v" by simp
  from fill_result [of ?f groups "[]" d key ?P, OF assms step init] show ?thesis by simp
qed

lemma hypertension_gender_groups:
  "(\<lambda>(gender, stroke_status, label).
      and_then (group_entry py (gender_ages data gender stroke_status)) (\<lambda>entry.
        Inr (py_str py gender @ ''_Hypertension_'' @ label, entry)))
   = (\<lambda>g. and_then (group_entry py ((\<lambda>(gender, stroke_status, label).
                                          gender_ages data gender stroke_status) g))
            (\<lambda>entry. Inr ((\<lambda>(gender, stroke_status, label).
                               py_str py gender @ ''_Hypertension_'' @ label) g, entry)))"
  by (simp add: fun_eq_iff)

lemma smoking_groups:
  "(\<lambda>(status, stroke_status, label).
      and_then (group_entry py (smoking_ages data status stroke_status)) (\<lambda>entry.
        Inr (py_str py status @ ''_'' @ label, entry)))
   = (\<lambda>g. and_then (group_entry py ((\<lambda>(status, stroke_status, label).
                                          smoking_ages data status stroke_status) g))
            (\<lambda>entry. Inr ((\<lambda>(status, stroke_status, label).
                               py_str py status @ ''_'' @ label) g, entry)))"
  by (simp add: fun_eq_iff)

lemma query_hypertension_gender_stroke_fill:
  assumes "fst (query_hypertension_gender_stroke py data files) = Inr r"
  shows "\<exists>d. r = PDict d
           \<and> fill (\<lambda>g. and_then (group_entry py ((\<lambda>(gender, stroke_status, label).
                                          gender_ages data gender stroke_status) g))
                     (\<lambda>entry. Inr ((\<lambda>(gender, stroke_status, label).
                               py_str py gender @ ''_Hypertension_'' @ label) g, entry)))
                [(gender, stroke_status, label). gender \<leftarrow> genders_of data,
                   (stroke_status, label) \<leftarrow> stroke_labels] [] = Inr d"
  using assms
  unfolding query_hypertension_gender_stroke_def fst_save_and_return hypertension_gender_groups
  by (auto simp: and_then_eq_Inr)

lemma query_smoking_stroke_fill:
  assumes "fst (query_smoking_stroke py data files) = Inr r"
  shows "\<exists>d. r = PDict d
           \<and> fill (\<lambda>g. and_then (group_entry py ((\<lambda>(status, stroke_status, label).
                                          smoking_ages data status stroke_status) g))
                     (\<lambda>entry. Inr ((\<lambda>(status, stroke_status, label).
                               py_str py status @ ''_'' @ label) g, entry)))
                [(status, stroke_status, label). status \<leftarrow> smoking_statuses_of data,
                   (stroke_status, label) \<leftarrow> stroke_labels] [] = Inr d"
  using assms
  unfolding query_smoking_stroke_def fst_save_and_return smoking_groups
  by (auto simp: and_then_eq_Inr)

lemma query_hypertension_gender_stroke_shape:
  assumes "fst (query_hypertension_gender_stroke py data files) = Inr r"
  shows "\<exists>d. r = PDict d
       \<and> (\<forall>(k, v) \<in> set d. v = no_data_entry \<or> (\<exists>e. v = PDict e \<and> full_age_dict e))
       \<and> fst ` set d =
           (\<lambda>(gender, stroke_status, label). py_str py gender @ ''_Hypertension_'' @ label)
             ` set [(gender, stroke_status, label). gender \<leftarrow> genders_of data,
                    (stroke_status, label) \<leftarrow> stroke_labels]"
proof -
  from query_hypertension_gender_stroke_fill [OF assms] obtain d where
    d: "r = PDict d" and f: "fill (\<lambda>g. and_then (group_entry py ((\<lambda>(gender, stroke_status, label).
                                          gender_ages data gender stroke_status) g))
                     (\<lambda>entry. Inr ((\<lambda>(gender, stroke_status, label).
                               py_str py gender @ ''_Hypertension_'' @ label) g, entry)))
                [(gender, stroke_status, label). gender \<leftarrow> genders_of data,
                   (stroke_status, label) \<leftarrow> stroke_labels] [] = Inr d"
    by blast
  from grouped_query_shape [OF f] d show ?thesis by blast
qed

lemma query_smoking_stroke_shape:
  assumes "fst (query_smoking_stroke py data files) = Inr r"
  shows "\<exists>d. r = PDict d
       \<and> (\<forall>(k, v) \<in> set d. v = no_data_entry \<or> (\<exists>e. v = PDict e \<and> full_age_dict e))
       \<and> fst ` set d =
           (\<lambda>(status, stroke_status, label). py_str py status @ ''_'' @ label)
             ` set [(status, stroke_status, label). status \<leftarrow> smoking_statuses_of data,
                    (stroke_status, label) \<leftarrow> stroke_labels]"
proof -
  from query_smoking_stroke_fill [OF assms] obtain d where
    d: "r = PDict d" and f: "fill (\<lambda>g. and_then (group_entry py ((\<lambda>(status, stroke_status, label).
                                          smoking_ages data status stroke_status) g))
                     (\<lambda>entry. Inr ((\<lambda>(status, stroke_status, label).
                               py_str py status @ ''_'' @ label) g, entry)))
                [(status, stroke_status, label). status \<leftarrow> smoking_statuses_of data,
                   (stroke_status, label) \<leftarrow> stroke_labels] [] = Inr d"
    by blast
  from grouped_query_shape [OF f] d show ?thesis by blast
qed

lemma query_hypertension_gender_stroke_distinct:
  assumes "distinct (map (\<lambda>(gender, stroke_status, label).
                             py_str py gender @ ''_Hypertension_'' @ label)
              [(gender, stroke_status, label). gender \<leftarrow> genders_of data,
                 (stroke_status, label) \<leftarrow> stroke_labels])"
    and "fst (query_hypertension_gender_stroke py data files) = Inr r"
  shows "r = PDict (map (\<lambda>(gender, stroke_status, label).
                              (py_str py gender @ ''_Hypertension_'' @ label,
                               group_value py (gender_ages data gender stroke_status)))
                  [(gender, stroke_status, label). gender \<leftarrow> genders_of data,
                     (stroke_status, label) \<leftarrow> stroke_labels])"
proof -
  from query_hypertension_gender_stroke_fill [OF assms(2)] obtain d where
    d: "r = PDict d" and f: "fill (\<lambda>g. and_then (group_entry py ((\<lambda>(gender, stroke_status, label).
                                          gender_ages data gender stroke_status) g))
                     (\<lambda>entry. Inr ((\<lambda>(gender, stroke_status, label).
                               py_str py gender @ ''_Hypertension_'' @ label) g, entry)))
                [(gender, stroke_status, label). gender \<leftarrow> genders_of data,
                   (stroke_status, label) \<leftarrow> stroke_labels] [] = Inr d"
    by blast
  have "d = [] @ map (\<lambda>g. ((\<lambda>(gender, stroke_status, label).
                                py_str py gender @ ''_Hypertension_'' @ label) g,
                            group_value py ((\<lambda>(gender, stroke_status, label).
                                               gender_ages data gender stroke_status) g)))
                  [(gender, stroke_status, label). gender \<leftarrow> genders_of data,
                     (stroke_status, label) \<leftarrow> stroke_labels]"
    by (rule fill_distinct [OF f assms(1)]) simp
  then show ?thesis unfolding d by (simp add: case_prod_beta)
qed

lemma query_smoking_stroke_distinct:
  assumes "distinct (map (\<lambda>(status, stroke_status, label). py_str py status @ ''_'' @ label)
              [(status, stroke_status, label). status \<leftarrow> smoking_statuses_of data,
                 (stroke_status, label) \<leftarrow> stroke_labels])"
    and "fst (query_smoking_stroke py data files) = Inr r"
  shows "r = PDict (map (\<lambda>(status, stroke_status, label).
                              (py_str py status @ ''_'' @ label,
                               group_value py (smoking_ages data status stroke_status)))
                  [(status, stroke_status, label). status \<leftarrow> smoking_statuses_of data,
                     (stroke_status, label) \<leftarrow> stroke_labels])"
proof -
  from query_smoking_stroke_fill [OF assms(2)] obtain d where
    d: "r = PDict d" and f: "fill (\<lambda>g. and_then (group_entry py ((\<lambda>(status, stroke_status, label).
                                          smoking_ages data status stroke_status) g))
                     (\<lambda>entry. Inr ((\<lambda>(status, stroke_status, label).
                               py_str py status @ ''_'' @ label) g, entry)))
                [(status, stroke_status, label). status \<leftarrow> smoking_statuses_of data,
                   (stroke_status, label) \<leftarrow> stroke_labels] [] = Inr d"
    by blast
  have "d = [] @ map (\<lambda>g. ((\<lambda>(status, stroke_status, label).
                                py_str py status @ ''_'' @ label) g,
                            group_value py ((\<lambda>(status, stroke_status, label).
                                               smoking_ages data status stroke_status) g)))
                  [(status, stroke_status, label). status \<leftarrow> smoking_statuses_of data,
                     (stroke_status, label) \<leftarrow> stroke_labels]"
    by (rule fill_distinct [OF f assms(1)]) simp
  then show ?thesis unfolding d by (simp add: case_prod_beta)
qed

lemma residence_entry_empty:
  "residence_ages data residence = [] \<Longrightarrow>
   residence_entry py data residence =
     Inr (PDict [(''count'', Atom (PInt 0)),
                 (''message'', Atom (PStr (''No data for '' @ residence)))])"
  by (simp add: residence_entry_def)

lemma query_residence_stroke_shape:
  assumes "fst (query_residence_stroke py data files) = Inr r"
  shows "\<exists>urban rural.
     r = PDict [(''Urban'', urban), (''Rural'', rural)]
     \<and> residence_entry py data ''Urban'' = Inr urban
     \<and> residence_entry py data ''Rural'' = Inr rural"
  using assms unfolding query_residence_stroke_def fst_save_and_return
  by (auto simp: and_then_eq_Inr)

lemma query_average_sleep_hours_stroke_value:
  "fst (query_average_sleep_hours_stroke py data files) =
     and_then (sleep_stats py (get_numeric_values data ''Sleep Hours''
                                 (Some [(''Stroke Occurrence'', PInt 1)]))) (\<lambda>stroke.
     and_then (sleep_stats py (get_numeric_values data ''Sleep Hours''
                                 (Some [(''Stroke Occurrence'', PInt 0)]))) (\<lambda>no_stroke.
       Inr (PDict [(''stroke'', stroke), (''no_stroke'', no_stroke)])))"
  by (simp add: query_average_sleep_hours_stroke_def fst_save_and_return Let_def)

text \<open>
  Claim C1: for every dataset, header and feature name that is absent from the header,
  the query returns an error-message string and does not raise. It returns at once,
  though: the message is not handed to the CSV export, and the sequence of exported
  files is unchanged. The other error path of the same function (a feature of the
  header without numeric values) does export its message before it returns.
\<close>

theorem unknown_feature_not_exported:
  "(feature_name \<notin> set header \<longrightarrow>
      query_descriptive_statistics py data feature_name header files =
        (Inr (Atom (PStr (''Error: Feature '' @ [CHR 0x27] @ feature_name @ [CHR 0x27]
                          @ '' not found.''))), files))
   \<and> (feature_name \<in> set header \<and> get_numeric_values data feature_name None = [] \<longrightarrow>
      query_descriptive_statistics py data feature_name header files =
        (Inr (Atom (PStr (''Error: No valid numeric data for '' @ [CHR 0x27] @ feature_name
                          @ [CHR 0x27] @ ''.''))),
         save_results_csv
           (Atom (PStr (''Error: No valid numeric data for '' @ [CHR 0x27] @ feature_name
                        @ [CHR 0x27] @ ''.'')))
           (''descriptive_stats_'' @ feature_name @ ''.csv'') files))"
  by (simp add: query_descriptive_statistics_def save_and_return_def)

text \<open>
  Claim C1, instance: \<open>Nonexistent\<close> is not in the header \<open>[Age, Gender]\<close>; the
  query returns its message and exports nothing. \<open>Age\<close> is in the header and the empty
  dataset has no numeric values for it; the query returns its message and exports it
  to \<open>descriptive_stats_Age.csv\<close>.
\<close>

theorem unknown_feature_not_exported_witness:
  "''Nonexistent'' \<notin> set [''Age'', ''Gender'']
   \<and> query_descriptive_statistics an_interpreter [] ''Nonexistent'' [''Age'', ''Gender''] [] =
     (Inr (Atom (PStr (''Error: Feature '' @ [CHR 0x27] @ ''Nonexistent'' @ [CHR 0x27]
                       @ '' not found.''))), [])
   \<and> query_descriptive_statistics an_interpreter [] ''Age'' [''Age'', ''Gender''] [] =
     (Inr (Atom (PStr (''Error: No valid numeric data for '' @ [CHR 0x27] @ ''Age''
                       @ [CHR 0x27] @ ''.''))),
      [(''descriptive_stats_Age.csv'',
        Atom (PStr (''Error: No valid numeric data for '' @ [CHR 0x27] @ ''Age''
                    @ [CHR 0x27] @ ''.'')))])"
proof -
  have "map lower_char (''descriptive_stats_Age'' @ ''.csv'')
          = map lower_char ''descriptive_stats_Age'' @ ''.csv''"
    by (simp add: lower_char_def)
  then have "suffix ''.csv'' (map lower_char (''descriptive_stats_Age'' @ ''.csv''))"
    by (simp only: suffix_def) blast
  then have name: "save_results_csv r ''descriptive_stats_Age.csv'' []
                     = [(''descriptive_stats_Age.csv'', r)]" for r
    by (simp add: save_results_csv_def)
  show ?thesis
    using unknown_feature_not_exported
        [of "''Nonexistent''" "[''Age'', ''Gender'']" an_interpreter "[]" "[]"]
      unknown_feature_not_exported
        [of "''Age''" "[''Age'', ''Gender'']" an_interpreter "[]" "[]"]
    by (simp add: get_numeric_values_Nil name)
qed

lemma double_of_seven: "double_of 7 = Fin 7"
  using double_of_int [of 7] by simp

lemma round2_seven: "round2 7 = 7"
  using round2_of_int [of 7] by simp

lemma double_of_quarter: "double_of (1 / 4) = Fin (1 / 4)"
  using is_double_quarters [of 1] by (simp add: is_double_def)

lemma double_of_three_quarters: "double_of (3 / 4) = Fin (3 / 4)"
  using is_double_quarters [of 3] by (simp add: is_double_def)

lemma modal_values_single: "modal_values [x] = Inr [x]"
  by (simp add: modal_values_def calculate_mode_def Counter_def py_max_def)

lemma calculate_percentile_single:
  "calculate_percentile [NInt i] (NInt 25) = Inr (Some (PyInt i))"
  "calculate_percentile [NInt i] (NInt 75) = Inr (Some (PyInt i))"
  by (simp_all add: calculate_percentile_def double_of_quarter double_of_three_quarters
      int_to_double_def double_of_zero py_index_def)

lemma sleep_stats_7:
  "sleep_stats an_interpreter [NInt 7] =
     Inr (PDict [(''count'', Atom (PInt 1)), (''mean'', Atom (PFloat (Fin 7))),
                 (''median'', Atom (PInt 7)), (''mode'', PList [Atom (PInt 7)]),
                 (''std_dev'', Atom PNone), (''min'', Atom (PInt 7)),
                 (''25%'', Atom (PInt 7)), (''75%'', Atom (PInt 7)),
                 (''max'', Atom (PInt 7))])"
proof -
  have m: "calculate_mean an_interpreter [NInt 7] = Inr (Some (PyFloat (Fin 7)))"
    by (simp add: calculate_mean_def py_sum_def double_of_seven round2_seven)
  have d: "calculate_median [NInt 7] = Inr (Some (PyInt 7))"
    by (simp add: calculate_median_def py_index_def)
  have s: "calculate_std_dev an_interpreter [NInt 7] None = Inr None"
    by (simp add: calculate_std_dev_def)
  show ?thesis
    unfolding sleep_stats_def m d s modal_values_single calculate_percentile_single
    by (simp add: rounded_min_def rounded_max_def number_min_def number_max_def num_obj_def)
qed

text \<open>
  Claim C2, as stated, fails for the sleep-hours query. In the dataset of one record
  without a stroke, no record matches \<open>stroke = 1\<close>, so the driving sequence of the
  stroke group is empty; the query returns the two statistic bundles all the same, the
  one of the stroke group with the count \<open>0\<close>, the mode \<open>[]\<close> and \<open>None\<close> elsewhere,
  and neither the result nor that bundle has a \<open>message\<close> field.
\<close>

theorem sleep_hours_no_message_counterexample:
  "get_numeric_values [[(''Stroke Occurrence'', PInt 0), (''Sleep Hours'', PInt 7)]]
     ''Sleep Hours'' (Some [(''Stroke Occurrence'', PInt 1)]) = []
   \<and> fst (query_average_sleep_hours_stroke an_interpreter
            [[(''Stroke Occurrence'', PInt 0), (''Sleep Hours'', PInt 7)]] []) =
     Inr (PDict
       [(''stroke'', empty_sleep_stats),
        (''no_stroke'',
         PDict [(''count'', Atom (PInt 1)), (''mean'', Atom (PFloat (Fin 7))),
                (''median'', Atom (PInt 7)), (''mode'', PList [Atom (PInt 7)]),
                (''std_dev'', Atom PNone), (''min'', Atom (PInt 7)),
                (''25%'', Atom (PInt 7)), (''75%'', Atom (PInt 7)),
                (''max'', Atom (PInt 7))])])
   \<and> \<not> has_key (PDict [(''stroke'', empty_sleep_stats)]) ''message''
   \<and> \<not> has_key empty_sleep_stats ''message''"
proof -
  have 1: "get_numeric_values [[(''Stroke Occurrence'', PInt 0), (''Sleep Hours'', PInt 7)]]
     ''Sleep Hours'' (Some [(''Stroke Occurrence'', PInt 1)]) = []"
    by (simp add: get_numeric_values_def filter_data_def falsy_conditions_def matches_def
        dict_get_def)
  have 0: "get_numeric_values [[(''Stroke Occurrence'', PInt 0), (''Sleep Hours'', PInt 7)]]
     ''Sleep Hours'' (Some [(''Stroke Occurrence'', PInt 0)]) = [NInt 7]"
    by (simp add: get_numeric_values_def filter_data_def falsy_conditions_def matches_def
        dict_get_def)
  show ?thesis
    unfolding query_average_sleep_hours_stroke_value 1 0 sleep_stats_7 sleep_stats_empty
    by (simp add: empty_sleep_stats_def)
qed

text \<open>
  Claim C2, amended: for every input record list, whenever a query returns a result (a
  query over numbers too large for the float arithmetic raises \<open>OverflowError\<close> and
  returns nothing):
  \<^item> the queries over one age sequence (smokers with hypertension and a stroke; heart
    disease and a stroke) return a dict of one \<open>message\<close> field when that sequence is
    empty;
  \<^item> the grouped queries (hypertension by gender, smoking by outcome) store an entry for
    every group, and every entry is either the placeholder of count \<open>0\<close> with the
    message \<open>No data\<close> or an age dictionary with a positive count, a mean, a median
    and a mode: never a dictionary over an empty sequence. When the keys of the groups
    are distinct, the result holds for each group, under its key, the placeholder if
    the group has no ages and its age dictionary otherwise;
  \<^item> the residence query stores for \<open>Urban\<close> and for \<open>Rural\<close> the count \<open>0\<close> with a
    message when the group has no ages;
  \<^item> the descriptive statistics of a feature of the header without numeric values are an
    error-message string;
  \<^item> the sleep-hours query is the exception: for a group without sleep hours it returns
    the statistic bundle with the count \<open>0\<close>, the mode \<open>[]\<close> and \<open>None\<close> in every other
    field, and no message.

  The message results of the first, second and fourth item do not depend on any
  arithmetic: there the query always returns.
\<close>

theorem empty_sequence_shapes:
  "(smokers_ages data = [] \<longrightarrow>
      fst (query_smokers_hypertension_stroke py data files) =
        Inr (PDict [(''message'', Atom (PStr
               ''No data found for smokers with hypertension who had a stroke''))]))
   \<and> (get_numeric_values data ''Age''
         (Some [(''Heart Disease'', PInt 1), (''Stroke Occurrence'', PInt 1)]) = [] \<longrightarrow>
      fst (query_heart_disease_stroke py data files) =
        Inr (PDict [(''message'', Atom (PStr
               ''No data found for patients with heart disease who had a stroke''))]))
   \<and> (\<forall>r. fst (query_hypertension_gender_stroke py data files) = Inr r \<longrightarrow>
         (\<exists>d. r = PDict d
           \<and> (\<forall>(k, v) \<in> set d. v = no_data_entry \<or> (\<exists>e. v = PDict e \<and> full_age_dict e))
           \<and> fst ` set d =
               (\<lambda>(gender, stroke_status, label).
                   py_str py gender @ ''_Hypertension_'' @ label)
                 ` set [(gender, stroke_status, label). gender \<leftarrow> genders_of data,
                        (stroke_status, label) \<leftarrow> stroke_labels]))
   \<and> (distinct (map (\<lambda>(gender, stroke_status, label).
                         py_str py gender @ ''_Hypertension_'' @ label)
          [(gender, stroke_status, label). gender \<leftarrow> genders_of data,
             (stroke_status, label) \<leftarrow> stroke_labels]) \<longrightarrow>
        (\<forall>r. fst (query_hypertension_gender_stroke py data files) = Inr r \<longrightarrow>
          r = PDict (map (\<lambda>(gender, stroke_status, label).
                             (py_str py gender @ ''_Hypertension_'' @ label,
                              group_value py (gender_ages data gender stroke_status)))
                 [(gender, stroke_status, label). gender \<leftarrow> genders_of data,
                    (stroke_status, label) \<leftarrow> stroke_labels])))
   \<and> (\<forall>r. fst (query_smoking_stroke py data files) = Inr r \<longrightarrow>
         (\<exists>d. r = PDict d
           \<and> (\<forall>(k, v) \<in> set d. v = no_data_entry \<or> (\<exists>e. v = PDict e \<and> full_age_dict e))
           \<and> fst ` set d =
               (\<lambda>(status, stroke_status, label). py_str py status @ ''_'' @ label)
                 ` set [(status, stroke_status, label). status \<leftarrow> smoking_statuses_of data,
                        (stroke_status, label) \<leftarrow> stroke_labels]))
   \<and> (distinct (map (\<lambda>(status, stroke_status, label). py_str py status @ ''_'' @ label)
          [(status, stroke_status, label). status \<leftarrow> smoking_statuses_of data,
             (stroke_status, label) \<leftarrow> stroke_labels]) \<longrightarrow>
        (\<forall>r. fst (query_smoking_stroke py data files) = Inr r \<longrightarrow>
          r = PDict (map (\<lambda>(status, stroke_status, label).
                             (py_str py status @ ''_'' @ label,
                              group_value py (smoking_ages data status stroke_status)))
                 [(status, stroke_status, label). status \<leftarrow> smoking_statuses_of data,
                    (stroke_status, label) \<leftarrow> stroke_labels])))
   \<and> group_entry py [] = Inr no_data_entry
   \<and> group_value py [] = no_data_entry
   \<and> (\<forall>r. fst (query_residence_stroke py data files) = Inr r \<longrightarrow>
        (\<exists>urban rural.
           r = PDict [(''Urban'', urban), (''Rural'', rural)]
           \<and> (residence_ages data ''Urban'' = [] \<longrightarrow>
                urban = PDict [(''count'', Atom (PInt 0)),
                               (''message'', Atom (PStr ''No data for Urban''))])
           \<and> (residence_ages data ''Rural'' = [] \<longrightarrow>
                rural = PDict [(''count'', Atom (PInt 0)),
                               (''message'', Atom (PStr ''No data for Rural''))])))
   \<and> (residence_ages data ''Urban'' = [] \<and> residence_ages data ''Rural'' = [] \<longrightarrow>
        fst (query_residence_stroke py data files) =
          Inr (PDict [(''Urban'', PDict [(''count'', Atom (PInt 0)),
                                         (''message'', Atom (PStr ''No data for Urban''))]),
                      (''Rural'', PDict [(''count'', Atom (PInt 0)),
                                         (''message'', Atom (PStr ''No data for Rural''))])]))
   \<and> (feature_name \<in> set header \<and> get_numeric_values data feature_name None = [] \<longrightarrow>
        fst (query_descriptive_statistics py data feature_name header files) =
          Inr (Atom (PStr (''Error: No valid numeric data for '' @ [CHR 0x27] @ feature_name
                           @ [CHR 0x27] @ ''.''))))
   \<and> (get_numeric_values data ''Sleep Hours'' (Some [(''Stroke Occurrence'', PInt 1)]) = [] \<longrightarrow>
        (\<forall>no_stroke.
           sleep_stats py (get_numeric_values data ''Sleep Hours''
                             (Some [(''Stroke Occurrence'', PInt 0)])) = Inr no_stroke \<longrightarrow>
           fst (query_average_sleep_hours_stroke py data files) =
             Inr (PDict [(''stroke'', empty_sleep_stats), (''no_stroke'', no_stroke)])))
   \<and> (get_numeric_values data ''Sleep Hours'' (Some [(''Stroke Occurrence'', PInt 0)]) = [] \<longrightarrow>
        (\<forall>stroke.
           sleep_stats py (get_numeric_values data ''Sleep Hours''
                             (Some [(''Stroke Occurrence'', PInt 1)])) = Inr stroke \<longrightarrow>
           fst (query_average_sleep_hours_stroke py data files) =
             Inr (PDict [(''stroke'', stroke), (''no_stroke'', empty_sleep_stats)])))"
proof -
  have i: "smokers_ages data = [] \<longrightarrow>
      fst (query_smokers_hypertension_stroke py data files) =
        Inr (PDict [(''message'', Atom (PStr
               ''No data found for smokers with hypertension who had a stroke''))])"
    by (simp add: query_smokers_hypertension_stroke_def fst_save_and_return)
  have ii: "get_numeric_values data ''Age''
         (Some [(''Heart Disease'', PInt 1), (''Stroke Occurrence'', PInt 1)]) = [] \<longrightarrow>
      fst (query_heart_disease_stroke py data files) =
        Inr (PDict [(''message'', Atom (PStr
               ''No data found for patients with heart disease who had a stroke''))])"
    by (simp add: query_heart_disease_stroke_def fst_save_and_return Let_def)
  have iii: "\<forall>r. fst (query_hypertension_gender_stroke py data files) = Inr r \<longrightarrow>
         (\<exists>d. r = PDict d
           \<and> (\<forall>(k, v) \<in> set d. v = no_data_entry \<or> (\<exists>e. v = PDict e \<and> full_age_dict e))
           \<and> fst ` set d =
               (\<lambda>(gender, stroke_status, label).
                   py_str py gender @ ''_Hypertension_'' @ label)
                 ` set [(gender, stroke_status, label). gender \<leftarrow> genders_of data,
                        (stroke_status, label) \<leftarrow> stroke_labels])"
    using query_hypertension_gender_stroke_shape [of py data files] by (intro allI impI)
  have iii': "distinct (map (\<lambda>(gender, stroke_status, label).
                         py_str py gender @ ''_Hypertension_'' @ label)
          [(gender, stroke_status, label). gender \<leftarrow> genders_of data,
             (stroke_status, label) \<leftarrow> stroke_labels]) \<longrightarrow>
        (\<forall>r. fst (query_hypertension_gender_stroke py data files) = Inr r \<longrightarrow>
          r = PDict (map (\<lambda>(gender, stroke_status, label).
                             (py_str py gender @ ''_Hypertension_'' @ label,
                              group_value py (gender_ages data gender stroke_status)))
                 [(gender, stroke_status, label). gender \<leftarrow> genders_of data,
                    (stroke_status, label) \<leftarrow> stroke_labels]))"
    using query_hypertension_gender_stroke_distinct [of py data files] by (intro allI impI)
  have iv: "\<forall>r. fst (query_smoking_stroke py data files) = Inr r \<longrightarrow>
         (\<exists>d. r = PDict d
           \<and> (\<forall>(k, v) \<in> set d. v = no_data_entry \<or> (\<exists>e. v = PDict e \<and> full_age_dict e))
           \<and> fst ` set d =
               (\<lambda>(status, stroke_status, label). py_str py status @ ''_'' @ label)
                 ` set [(status, stroke_status, label). status \<leftarrow> smoking_statuses_of data,
                        (stroke_status, label) \<leftarrow> stroke_labels])"
    using query_smoking_stroke_shape [of py data files] by (intro allI impI)
  have iv': "distinct (map (\<lambda>(status, stroke_status, label). py_str py status @ ''_'' @ label)
          [(status, stroke_status, label). status \<leftarrow> smoking_statuses_of data,
             (stroke_status, label) \<leftarrow> stroke_labels]) \<longrightarrow>
        (\<forall>r. fst (query_smoking_stroke py data files) = Inr r \<longrightarrow>
          r = PDict (map (\<lambda>(status, stroke_status, label).
                             (py_str py status @ ''_'' @ label,
                              group_value py (smoking_ages data status stroke_status)))
                 [(status, stroke_status, label). status \<leftarrow> smoking_statuses_of data,
                    (stroke_status, label) \<leftarrow> stroke_labels]))"
    using query_smoking_stroke_distinct [of py data files] by (intro allI impI)
  have v: "\<forall>r. fst (query_residence_stroke py data files) = Inr r \<longrightarrow>
        (\<exists>urban rural.
           r = PDict [(''Urban'', urban), (''Rural'', rural)]
           \<and> (residence_ages data ''Urban'' = [] \<longrightarrow>
                urban = PDict [(''count'', Atom (PInt 0)),
                               (''message'', Atom (PStr ''No data for Urban''))])
           \<and> (residence_ages data ''Rural'' = [] \<longrightarrow>
                rural = PDict [(''count'', Atom (PInt 0)),
                               (''message'', Atom (PStr ''No data for Rural''))]))"
  proof (intro allI impI)
    fix r assume "fst (query_residence_stroke py data files) = Inr r"
    from query_residence_stroke_shape [OF this] obtain urban rural where
      s: "r = PDict [(''Urban'', urban), (''Rural'', rural)]"
         "residence_entry py data ''Urban'' = Inr urban"
         "residence_entry py data ''Rural'' = Inr rural"
      by blast
    have "residence_ages data ''Urban'' = [] \<longrightarrow>
            urban = PDict [(''count'', Atom (PInt 0)),
                           (''message'', Atom (PStr ''No data for Urban''))]"
      using residence_entry_empty [of data "''Urban''" py] s(2) by auto
    moreover have "residence_ages data ''Rural'' = [] \<longrightarrow>
            rural = PDict [(''count'', Atom (PInt 0)),
                           (''message'', Atom (PStr ''No data for Rural''))]"
      using residence_entry_empty [of data "''Rural''" py] s(3) by auto
    ultimately show "\<exists>urban rural.
           r = PDict [(''Urban'', urban), (''Rural'', rural)]
           \<and> (residence_ages data ''Urban'' = [] \<longrightarrow>
                urban = PDict [(''count'', Atom (PInt 0)),
                               (''message'', Atom (PStr ''No data for Urban''))])
           \<and> (residence_ages data ''Rural'' = [] \<longrightarrow>
                rural = PDict [(''count'', Atom (PInt 0)),
                               (''message'', Atom (PStr ''No data for Rural''))])"
      using s(1) by blast
  qed
  have v': "residence_ages data ''Urban'' = [] \<and> residence_ages data ''Rural'' = [] \<longrightarrow>
        fst (query_residence_stroke py data files) =
          Inr (PDict [(''Urban'', PDict [(''count'', Atom (PInt 0)),
                                         (''message'', Atom (PStr ''No data for Urban''))]),
                      (''Rural'', PDict [(''count'', Atom (PInt 0)),
                                         (''message'', Atom (PStr ''No data for Rural''))])])"
    by (simp add: query_residence_stroke_def fst_save_and_return residence_entry_empty)
  have x: "feature_name \<in> set header \<and> get_numeric_values data feature_name None = [] \<longrightarrow>
        fst (query_descriptive_statistics py data feature_name header files) =
          Inr (Atom (PStr (''Error: No valid numeric data for '' @ [CHR 0x27] @ feature_name
                           @ [CHR 0x27] @ ''.'')))"
    by (simp add: query_descriptive_statistics_def fst_save_and_return)
  have xi1: "get_numeric_values data ''Sleep Hours'' (Some [(''Stroke Occurrence'', PInt 1)]) = [] \<longrightarrow>
        (\<forall>no_stroke.
           sleep_stats py (get_numeric_values data ''Sleep Hours''
                             (Some [(''Stroke Occurrence'', PInt 0)])) = Inr no_stroke \<longrightarrow>
           fst (query_average_sleep_hours_stroke py data files) =
             Inr (PDict [(''stroke'', empty_sleep_stats), (''no_stroke'', no_stroke)]))"
    by (simp add: query_average_sleep_hours_stroke_value sleep_stats_empty)
  have xi0: "get_numeric_values data ''Sleep Hours'' (Some [(''Stroke Occurrence'', PInt 0)]) = [] \<longrightarrow>
        (\<forall>stroke.
           sleep_stats py (get_numeric_values data ''Sleep Hours''
                             (Some [(''Stroke Occurrence'', PInt 1)])) = Inr stroke \<longrightarrow>
           fst (query_average_sleep_hours_stroke py data files) =
             Inr (PDict [(''stroke'', stroke), (''no_stroke'', empty_sleep_stats)]))"
    by (simp add: query_average_sleep_hours_stroke_value sleep_stats_empty)
  show ?thesis
    using i ii iii iii' iv iv' group_entry_empty [of py] group_value_empty [of py] v v' x xi1 xi0
    by (intro conjI)
qed

lemma double_of_fifty: "double_of 50 = Fin 50"
  using double_of_int [of 50] by simp

lemma round2_fifty: "round2 50 = 50"
  using round2_of_int [of 50] by simp

lemma group_entry_50:
  "group_entry an_interpreter [NInt 50] =
     Inr (PDict (age_dict 1 (PyFloat (Fin 50)) (PyInt 50) [NInt 50]))"
proof -
  have m: "calculate_mean an_interpreter [NInt 50] = Inr (Some (PyFloat (Fin 50)))"
    by (simp add: calculate_mean_def py_sum_def double_of_fifty round2_fifty)
  have d: "calculate_median [NInt 50] = Inr (Some (PyInt 50))"
    by (simp add: calculate_median_def py_index_def)
  show ?thesis
    unfolding group_entry_def age_entries_def m d modal_values_single
    by (simp add: age_dict_def)
qed

text \<open>
  Claim C2, instance: in the dataset of one record (a man who smokes, with hypertension,
  without a stroke, aged 50, sleeping 7 hours) no smoker with hypertension had a stroke,
  nobody with heart disease had a stroke, no urban or rural resident had a stroke, the
  feature \<open>Gender\<close> has no numeric values, and nobody with a stroke has sleep hours.
  The first, second and fourth query answer with a message, the residence query with
  its two placeholders, the gender query (its two keys are distinct) with the
  placeholder for \<open>Male_Hypertension_Stroke\<close> and an age dictionary for
  \<open>Male_Hypertension_NoStroke\<close>, and the sleep-hours query with the bundle of count
  \<open>0\<close> for the stroke group.
\<close>

theorem empty_sequence_shapes_witness:
  "smokers_ages
     [[(''Gender'', PStr ''Male''), (''Smoking Status'', PStr ''smokes''),
       (''Hypertension'', PInt 1), (''Stroke Occurrence'', PInt 0), (''Age'', PInt 50),
       (''Sleep Hours'', PInt 7)]] = []
   \<and> fst (query_smokers_hypertension_stroke an_interpreter
       [[(''Gender'', PStr ''Male''), (''Smoking Status'', PStr ''smokes''),
         (''Hypertension'', PInt 1), (''Stroke Occurrence'', PInt 0), (''Age'', PInt 50),
         (''Sleep Hours'', PInt 7)]] []) =
       Inr (PDict [(''message'', Atom (PStr
              ''No data found for smokers with hypertension who had a stroke''))])
   \<and> fst (query_heart_disease_stroke an_interpreter
       [[(''Gender'', PStr ''Male''), (''Smoking Status'', PStr ''smokes''),
         (''Hypertension'', PInt 1), (''Stroke Occurrence'', PInt 0), (''Age'', PInt 50),
         (''Sleep Hours'', PInt 7)]] []) =
       Inr (PDict [(''message'', Atom (PStr
              ''No data found for patients with heart disease who had a stroke''))])
   \<and> fst (query_hypertension_gender_stroke an_interpreter
       [[(''Gender'', PStr ''Male''), (''Smoking Status'', PStr ''smokes''),
         (''Hypertension'', PInt 1), (''Stroke Occurrence'', PInt 0), (''Age'', PInt 50),
         (''Sleep Hours'', PInt 7)]] []) =
       Inr (PDict [(''Male_Hypertension_Stroke'', no_data_entry),
                   (''Male_Hypertension_NoStroke'',
                    PDict (age_dict 1 (PyFloat (Fin 50)) (PyInt 50) [NInt 50]))])
   \<and> fst (query_residence_stroke an_interpreter
       [[(''Gender'', PStr ''Male''), (''Smoking Status'', PStr ''smokes''),
         (''Hypertension'', PInt 1), (''Stroke Occurrence'', PInt 0), (''Age'', PInt 50),
         (''Sleep Hours'', PInt 7)]] []) =
       Inr (PDict [(''Urban'', PDict [(''count'', Atom (PInt 0)),
                                      (''message'', Atom (PStr ''No data for Urban''))]),
                   (''Rural'', PDict [(''count'', Atom (PInt 0)),
                                      (''message'', Atom (PStr ''No data for Rural''))])])
   \<and> fst (query_descriptive_statistics an_interpreter
       [[(''Gender'', PStr ''Male''), (''Smoking Status'', PStr ''smokes''),
         (''Hypertension'', PInt 1), (''Stroke Occurrence'', PInt 0), (''Age'', PInt 50),
         (''Sleep Hours'', PInt 7)]] ''Gender'' [''Gender'', ''Age''] []) =
       Inr (Atom (PStr (''Error: No valid numeric data for '' @ [CHR 0x27] @ ''Gender''
                        @ [CHR 0x27] @ ''.'')))
   \<and> fst (query_average_sleep_hours_stroke an_interpreter
       [[(''Gender'', PStr ''Male''), (''Smoking Status'', PStr ''smokes''),
         (''Hypertension'', PInt 1), (''Stroke Occurrence'', PInt 0), (''Age'', PInt 50),
         (''Sleep Hours'', PInt 7)]] []) =
       Inr (PDict [(''stroke'', empty_sleep_stats),
                   (''no_stroke'',
                    PDict [(''count'', Atom (PInt 1)), (''mean'', Atom (PFloat (Fin 7))),
                           (''median'', Atom (PInt 7)), (''mode'', PList [Atom (PInt 7)]),
                           (''std_dev'', Atom PNone), (''min'', Atom (PInt 7)),
                           (''25%'', Atom (PInt 7)), (''75%'', Atom (PInt 7)),
                           (''max'', Atom (PInt 7))])])"
proof -
  define D :: "real pydict list" where
    "D = [[(''Gender'', PStr ''Male''), (''Smoking Status'', PStr ''smokes''),
           (''Hypertension'', PInt 1), (''Stroke Occurrence'', PInt 0), (''Age'', PInt 50),
           (''Sleep Hours'', PInt 7)]]"
  note ev = get_numeric_values_def filter_data_def falsy_conditions_def matches_def dict_get_def
  have a1: "smokers_ages D = []" by (simp add: D_def smokers_ages_def ev)
  have a2: "get_numeric_values D ''Age''
              (Some [(''Heart Disease'', PInt 1), (''Stroke Occurrence'', PInt 1)]) = []"
    by (simp add: D_def ev)
  have a3: "genders_of D = [PStr ''Male'']"
    by (simp add: D_def genders_of_def py_set_def dict_get_def)
  have g1: "gender_ages D (PStr ''Male'') 1 = []"
    and g0: "gender_ages D (PStr ''Male'') 0 = [NInt 50]"
    by (simp_all add: D_def gender_ages_def ev)
  have v50: "group_value an_interpreter [NInt 50] =
               PDict (age_dict 1 (PyFloat (Fin 50)) (PyInt 50) [NInt 50])"
    by (simp add: group_value_def group_entry_50)
  have a5: "residence_ages D ''Urban'' = []" "residence_ages D ''Rural'' = []"
    by (simp_all add: D_def residence_ages_def ev)
  have a6: "get_numeric_values D ''Gender'' None = []" by (simp add: D_def ev)
  have a7: "get_numeric_values D ''Sleep Hours'' (Some [(''Stroke Occurrence'', PInt 1)]) = []"
    by (simp add: D_def ev)
  have a8: "get_numeric_values D ''Sleep Hours'' (Some [(''Stroke Occurrence'', PInt 0)])
              = [NInt 7]"
    by (simp add: D_def ev)
  have ret: "\<exists>r. fst (query_hypertension_gender_stroke an_interpreter D []) = Inr r"
    unfolding query_hypertension_gender_stroke_def fst_save_and_return a3
    by (simp add: stroke_labels_def g1 g0 group_entry_empty group_entry_50)
  note T = empty_sequence_shapes [of D an_interpreter "[]" "''Gender''" "[''Gender'', ''Age'']"]
  note T1 = T [THEN conjunct1]
  note T2 = T [THEN conjunct2, THEN conjunct1]
  note T4 = T [THEN conjunct2, THEN conjunct2, THEN conjunct2, THEN conjunct1]
  note T10 = T [THEN conjunct2, THEN conjunct2, THEN conjunct2, THEN conjunct2, THEN conjunct2,
               THEN conjunct2, THEN conjunct2, THEN conjunct2, THEN conjunct2, THEN conjunct1]
  note T11 = T [THEN conjunct2, THEN conjunct2, THEN conjunct2, THEN conjunct2, THEN conjunct2,
               THEN conjunct2, THEN conjunct2, THEN conjunct2, THEN conjunct2, THEN conjunct2,
               THEN conjunct1]
  note T12 = T [THEN conjunct2, THEN conjunct2, THEN conjunct2, THEN conjunct2, THEN conjunct2,
               THEN conjunct2, THEN conjunct2, THEN conjunct2, THEN conjunct2, THEN conjunct2,
               THEN conjunct2, THEN conjunct1]
  have c1: "fst (query_smokers_hypertension_stroke an_interpreter D []) =
       Inr (PDict [(''message'', Atom (PStr
              ''No data found for smokers with hypertension who had a stroke''))])"
    using T1 a1 by simp
  have c2: "fst (query_heart_disease_stroke an_interpreter D []) =
       Inr (PDict [(''message'', Atom (PStr
              ''No data found for patients with heart disease who had a stroke''))])"
    using T2 a2 by simp
  have c3: "fst (query_hypertension_gender_stroke an_interpreter D []) =
       Inr (PDict [(''Male_Hypertension_Stroke'', no_data_entry),
                   (''Male_Hypertension_NoStroke'',
                    PDict (age_dict 1 (PyFloat (Fin 50)) (PyInt 50) [NInt 50]))])"
    using T4 ret unfolding a3 by (auto simp: stroke_labels_def g1 g0 v50 group_value_empty)
  have c5: "fst (query_residence_stroke an_interpreter D []) =
       Inr (PDict [(''Urban'', PDict [(''count'', Atom (PInt 0)),
                                      (''message'', Atom (PStr ''No data for Urban''))]),
                   (''Rural'', PDict [(''count'', Atom (PInt 0)),
                                      (''message'', Atom (PStr ''No data for Rural''))])])"
    using T10 a5 by simp
  have c6: "fst (query_descriptive_statistics an_interpreter D ''Gender'' [''Gender'', ''Age''] [])
      = Inr (Atom (PStr (''Error: No valid numeric data for '' @ [CHR 0x27] @ ''Gender''
                        @ [CHR 0x27] @ ''.'')))"
    using T11 a6 by simp
  have c7: "fst (query_average_sleep_hours_stroke an_interpreter D []) =
       Inr (PDict [(''stroke'', empty_sleep_stats),
                   (''no_stroke'',
                    PDict [(''count'', Atom (PInt 1)), (''mean'', Atom (PFloat (Fin 7))),
                           (''median'', Atom (PInt 7)), (''mode'', PList [Atom (PInt 7)]),
                           (''std_dev'', Atom PNone), (''min'', Atom (PInt 7)),
                           (''25%'', Atom (PInt 7)), (''75%'', Atom (PInt 7)),
                           (''max'', Atom (PInt 7))])])"
    using T12 a7 unfolding a8 sleep_stats_7 by simp
  show ?thesis
    using a1 c1 c2 c3 c5 c6 c7 unfolding D_def by (intro conjI)
qed

section \<open>Properties of the loader\<close>

lemma make_record_prefix:
  assumes "distinct header" "length vals = length header" "m \<le> length header"
  shows "fold (\<lambda>i record. dict_set record (header ! i) (f (vals ! i))) [0..<m] []
           = zip (take m header) (map f (take m vals))"
  using assms(3)
proof (induction m)
  case 0
  then show ?case by simp
next
  case (Suc m)
  then have m: "m < length header" by simp
  have fresh: "header ! m \<notin> fst ` set (zip (take m header) (map f (take m vals)))"
  proof
    assume "header ! m \<in> fst ` set (zip (take m header) (map f (take m vals)))"
    then have "header ! m \<in> set (take m header)"
      by (auto dest: set_zip_leftD)
    then obtain i where "i < m" "header ! i = header ! m"
      using m by (auto simp: in_set_conv_nth)
    then show False
      using assms(1) m by (auto simp: nth_eq_iff_index_eq)
  qed
  have "zip (take (Suc m) header) (map f (take (Suc m) vals))
          = zip (take m header) (map f (take m vals)) @ [(header ! m, f (vals ! m))]"
    using m assms(2) by (simp add: take_Suc_conv_app_nth)
  then show ?case
    using Suc m by (simp add: dict_set_fresh [OF fresh])
qed

lemma make_record_zip:
  assumes "distinct header" "length vals = length header"
  shows "make_record float_of header vals
           = zip header (map (convert_to_appropriate_type float_of) vals)"
  unfolding make_record_def
  using make_record_prefix [OF assms order_refl, of "convert_to_appropriate_type float_of"]
    assms(2)
  by simp

lemma fold_append_rows:
  "fold (\<lambda>line data. if P line then data else if Q line then data @ [g line] else data) lines acc
     = acc @ [g line. line \<leftarrow> lines, \<not> P line \<and> Q line]"
  by (induction lines arbitrary: acc) simp_all

lemma read_rows_eq:
  "read_rows float_of header lines =
     [make_record float_of header (cells line).
        line \<leftarrow> lines, strip line \<noteq> [] \<and> length (cells line) = length header]"
  unfolding read_rows_def fold_append_rows by simp

lemma split_lines_nonempty: "line \<in> set (split_lines text) \<Longrightarrow> line \<noteq> []"
proof (induction "text" arbitrary: line)
  case Nil
  then show ?case by simp
next
  case (Cons c cs)
  then show ?case
    by (cases "split_lines cs") (auto split: if_splits)
qed

lemma split_lines_Nil_iff: "split_lines text = [] \<longleftrightarrow> text = []"
  by (cases "text") (auto split: list.splits)

lemma read_file_failure: "read_file float_of (split_lines text) (Some e) = Inl e"
proof (cases "split_lines text")
  case Nil
  then show ?thesis by (simp add: read_file_def)
next
  case (Cons header_line rest)
  then have "header_line \<noteq> []" using split_lines_nonempty [of header_line "text"] by simp
  then show ?thesis using Cons by (simp add: read_file_def Let_def)
qed

lemma read_file_whole:
  assumes "text \<noteq> []"
  shows "read_file float_of (split_lines text) None =
           Inr (read_rows float_of (cells (hd (split_lines text))) (tl (split_lines text)),
                cells (hd (split_lines text)))"
proof (cases "split_lines text")
  case Nil
  then show ?thesis using assms by (simp add: split_lines_Nil_iff)
next
  case (Cons header_line rest)
  then have "header_line \<noteq> []" using split_lines_nonempty [of header_line "text"] by simp
  then show ?thesis using Cons by (simp add: read_file_def Let_def)
qed

lemma example_file_loaded:
  assumes "float_of ''Male'' = None" "float_of ''Female'' = None"
  shows "load_data float_of
           (\<lambda>p. Readable ''Age,Gender\<newline>30,Male\<newline>N/A,Female\<newline>25\<newline>'' None) filepath
         = Inr ([[(''Age'', PInt 30), (''Gender'', PStr ''Male'')],
                 [(''Age'', PNone), (''Gender'', PStr ''Female'')]],
                [''Age'', ''Gender''])"
proof -
  have lines: "split_lines ''Age,Gender\<newline>30,Male\<newline>N/A,Female\<newline>25\<newline>''
      = [''Age,Gender\<newline>'', ''30,Male\<newline>'', ''N/A,Female\<newline>'', ''25\<newline>'']"
    by simp
  have s0: "strip ''Age,Gender\<newline>'' = ''Age,Gender''"
    and s1: "strip ''30,Male\<newline>'' = ''30,Male''"
    and s2: "strip ''N/A,Female\<newline>'' = ''N/A,Female''"
    and s3: "strip ''25\<newline>'' = ''25''"
    and s4: "strip ''Age'' = ''Age''" "strip ''Gender'' = ''Gender''" "strip ''30'' = ''30''"
      "strip ''Male'' = ''Male''" "strip ''N/A'' = ''N/A''" "strip ''Female'' = ''Female''"
      "strip ''25'' = ''25''"
    by (simp_all add: strip_def is_space_def)
  have c0: "cells ''Age,Gender\<newline>'' = [''Age'', ''Gender'']"
    and c1: "cells ''30,Male\<newline>'' = [''30'', ''Male'']"
    and c2: "cells ''N/A,Female\<newline>'' = [''N/A'', ''Female'']"
    and c3: "cells ''25\<newline>'' = [''25'']"
    unfolding cells_def s0 s1 s2 s3 by (simp_all add: s4)
  have i30: "py_int ''30'' = Some 30"
    by (simp add: py_int_def nat_literal_def is_digit_def digits_value_def)
  have iM: "py_int ''Male'' = None" and iF: "py_int ''Female'' = None"
    by (simp_all add: py_int_def nat_literal_def is_digit_def)
  have t30: "convert_to_appropriate_type float_of ''30'' = PInt 30"
    and tNA: "convert_to_appropriate_type float_of ''N/A'' = PNone"
    and tM: "convert_to_appropriate_type float_of ''Male'' = PStr ''Male''"
    and tF: "convert_to_appropriate_type float_of ''Female'' = PStr ''Female''"
    unfolding convert_to_appropriate_type_def Let_def s4 i30 iM iF assms by simp_all
  have r1: "make_record float_of [''Age'', ''Gender''] [''30'', ''Male'']
              = [(''Age'', PInt 30), (''Gender'', PStr ''Male'')]"
    and r2: "make_record float_of [''Age'', ''Gender''] [''N/A'', ''Female'']
              = [(''Age'', PNone), (''Gender'', PStr ''Female'')]"
    by (simp_all add: make_record_zip t30 tNA tM tF)
  have rows: "read_rows float_of [''Age'', ''Gender'']
                [''30,Male\<newline>'', ''N/A,Female\<newline>'', ''25\<newline>'']
              = [[(''Age'', PInt 30), (''Gender'', PStr ''Male'')],
                 [(''Age'', PNone), (''Gender'', PStr ''Female'')]]"
    unfolding read_rows_eq by (simp add: s1 s2 s3 c1 c2 c3 r1 r2)
  show ?thesis
    unfolding load_data_def opened.case lines read_file_def list.case
    by (simp add: c0 rows)
qed

text \<open>
  Claim C5: the loader types every cell on its own: it strips the white space; \<open>N/A\<close>
  and the empty string become \<open>None\<close>; \<open>Unknown\<close> stays the string \<open>Unknown\<close>;
  anything else is parsed as an integer, failing that as a float, and failing that kept
  as the stripped string. A record pairs each header field with its typed cell (for a
  header without repeated names), and the records are those of the lines that are not
  blank and have as many cells as the header: the others are dropped. The file with the
  header \<open>Age,Gender\<close> and the rows \<open>30,Male\<close>, \<open>N/A,Female\<close> and \<open>25\<close> gives
  exactly the two records \<open>{Age: 30, Gender: "Male"}\<close> and
  \<open>{Age: None, Gender: "Female"}\<close>, for every \<open>float()\<close> that rejects \<open>Male\<close> and
  \<open>Female\<close>.
\<close>

theorem loader_types_cells_and_drops_rows:
  "(strip s \<in> {''N/A'', ''''} \<longrightarrow> convert_to_appropriate_type float_of s = PNone)
   \<and> (strip s = ''Unknown'' \<longrightarrow> convert_to_appropriate_type float_of s = PStr ''Unknown'')
   \<and> (strip s \<notin> {''N/A'', '''', ''Unknown''} \<longrightarrow>
        convert_to_appropriate_type float_of s =
          (case py_int (strip s) of
             Some i \<Rightarrow> PInt i
           | None \<Rightarrow> (case float_of (strip s) of
                        Some x \<Rightarrow> PFloat x
                      | None \<Rightarrow> PStr (strip s))))
   \<and> (distinct header \<and> length vals = length header \<longrightarrow>
        make_record float_of header vals
          = zip header (map (convert_to_appropriate_type float_of) vals))
   \<and> read_rows float_of header lines =
        [make_record float_of header (cells line).
           line \<leftarrow> lines, strip line \<noteq> [] \<and> length (cells line) = length header]
   \<and> (float_of ''Male'' = None \<and> float_of ''Female'' = None \<longrightarrow>
        load_data float_of
           (\<lambda>p. Readable ''Age,Gender\<newline>30,Male\<newline>N/A,Female\<newline>25\<newline>'' None) filepath
         = Inr ([[(''Age'', PInt 30), (''Gender'', PStr ''Male'')],
                 [(''Age'', PNone), (''Gender'', PStr ''Female'')]],
                [''Age'', ''Gender'']))"
proof -
  have 1: "strip s \<in> {''N/A'', ''''} \<longrightarrow> convert_to_appropriate_type float_of s = PNone"
    by (auto simp: convert_to_appropriate_type_def)
  have 2: "strip s = ''Unknown'' \<longrightarrow>
      convert_to_appropriate_type float_of s = PStr ''Unknown''"
    by (simp add: convert_to_appropriate_type_def)
  have 3: "strip s \<notin> {''N/A'', '''', ''Unknown''} \<longrightarrow>
        convert_to_appropriate_type float_of s =
          (case py_int (strip s) of
             Some i \<Rightarrow> PInt i
           | None \<Rightarrow> (case float_of (strip s) of
                        Some x \<Rightarrow> PFloat x
                      | None \<Rightarrow> PStr (strip s)))"
    by (simp add: convert_to_appropriate_type_def Let_def)
  have 4: "distinct header \<and> length vals = length header \<longrightarrow>
        make_record float_of header vals
          = zip header (map (convert_to_appropriate_type float_of) vals)"
    using make_record_zip [of header vals float_of] by simp
  have 6: "float_of ''Male'' = None \<and> float_of ''Female'' = None \<longrightarrow>
        load_data float_of
           (\<lambda>p. Readable ''Age,Gender\<newline>30,Male\<newline>N/A,Female\<newline>25\<newline>'' None) filepath
         = Inr ([[(''Age'', PInt 30), (''Gender'', PStr ''Male'')],
                 [(''Age'', PNone), (''Gender'', PStr ''Female'')]],
                [''Age'', ''Gender''])"
    using example_file_loaded [of float_of filepath] by simp
  show ?thesis
    using 1 2 3 4 read_rows_eq [of float_of header lines] 6 by (intro conjI)
qed

text \<open>
  Claim C5, instance: with the decimal \<open>float()\<close>, which rejects \<open>Male\<close> and
  \<open>Female\<close>, the example file gives the two records; the cell \<open>" N/A "\<close> is \<open>None\<close>,
  \<open>"Unknown"\<close> is kept, \<open>" 30 "\<close> is the integer \<open>30\<close>, \<open>"1.5"\<close> is the float
  \<open>1.5\<close> and \<open>"Male"\<close> is a string.
\<close>

theorem loader_types_cells_and_drops_rows_witness:
  "decimal_float ''Male'' = None \<and> decimal_float ''Female'' = None
   \<and> load_data decimal_float
        (\<lambda>p. Readable ''Age,Gender\<newline>30,Male\<newline>N/A,Female\<newline>25\<newline>'' None) ''data.csv''
      = Inr ([[(''Age'', PInt 30), (''Gender'', PStr ''Male'')],
              [(''Age'', PNone), (''Gender'', PStr ''Female'')]],
             [''Age'', ''Gender''])
   \<and> convert_to_appropriate_type decimal_float '' N/A '' = PNone
   \<and> convert_to_appropriate_type decimal_float ''Unknown'' = PStr ''Unknown''
   \<and> convert_to_appropriate_type decimal_float '' 30 '' = PInt 30
   \<and> convert_to_appropriate_type decimal_float ''1.5'' = PFloat (3 / 2)
   \<and> convert_to_appropriate_type decimal_float ''Male'' = PStr ''Male''
   \<and> distinct [''Age'', ''Gender'']
   \<and> make_record decimal_float [''Age'', ''Gender''] ['' 30 '', ''Male'']
       = [(''Age'', PInt 30), (''Gender'', PStr ''Male'')]"
proof -
  have d: "decimal_float ''Male'' = None" "decimal_float ''Female'' = None"
    by (simp_all add: decimal_float_def is_digit_def)
  have d15: "decimal_float ''1.5'' = Some (3 / 2)"
    by (simp add: decimal_float_def is_digit_def digits_value_def)
  have s: "strip '' N/A '' = ''N/A''" "strip ''Unknown'' = ''Unknown''" "strip '' 30 '' = ''30''"
    "strip ''1.5'' = ''1.5''" "strip ''Male'' = ''Male''"
    by (simp_all add: strip_def is_space_def)
  have i: "py_int ''30'' = Some 30" "py_int ''1.5'' = None" "py_int ''Male'' = None"
    by (simp_all add: py_int_def nat_literal_def is_digit_def digits_value_def)
  note T = loader_types_cells_and_drops_rows [where float_of = decimal_float]
  have "convert_to_appropriate_type decimal_float '' N/A '' = PNone"
    using T [of "'' N/A ''"] by (simp add: s)
  moreover have "convert_to_appropriate_type decimal_float ''Unknown'' = PStr ''Unknown''"
    using T [of "''Unknown''"] by (simp add: s)
  moreover have "convert_to_appropriate_type decimal_float '' 30 '' = PInt 30"
    using T [of "'' 30 ''"] by (simp add: s i)
  moreover have "convert_to_appropriate_type decimal_float ''1.5'' = PFloat (3 / 2)"
    using T [of "''1.5''"] by (simp add: s i d15)
  moreover have "convert_to_appropriate_type decimal_float ''Male'' = PStr ''Male''"
    using T [of "''Male''"] by (simp add: s i d)
  moreover have "load_data decimal_float
        (\<lambda>p. Readable ''Age,Gender\<newline>30,Male\<newline>N/A,Female\<newline>25\<newline>'' None) ''data.csv''
      = Inr ([[(''Age'', PInt 30), (''Gender'', PStr ''Male'')],
              [(''Age'', PNone), (''Gender'', PStr ''Female'')]],
             [''Age'', ''Gender''])"
    using T [of "[]" "[]" "[]" "[]" "''data.csv''"] d by simp
  moreover have "make_record decimal_float [''Age'', ''Gender''] ['' 30 '', ''Male'']
       = [(''Age'', PInt 30), (''Gender'', PStr ''Male'')]"
    using T [of "[]" "[''Age'', ''Gender'']" "['' 30 '', ''Male'']" "[]" "[]"] calculation(3,5)
    by simp
  ultimately show ?thesis using d by simp
qed

text \<open>
  Claim C9: the loader returns \<open>([], [])\<close> for an empty file; a missing file raises a
  file-not-found error whose message ends with the given path; any other exception, of
  opening or of reading, is raised again inside an \<open>Exception\<close> whose message is a
  fixed context followed by the text of the cause; and a file that is read to its end
  without an exception gives the header of its first line and the records of all its
  other lines. These cases are all there are: the loader returns the result for the
  whole file or raises, and never returns a part of the records.
\<close>

theorem load_data_all_or_nothing:
  "(fs filepath = Missing \<longrightarrow>
      load_data float_of fs filepath =
        Inl (FileNotFoundError (''Dataset file not found at: '' @ filepath)))
   \<and> (fs filepath = Unopenable e \<longrightarrow>
      load_data float_of fs filepath =
        Inl (Exception (''An error occurred while reading the dataset: '' @ e)))
   \<and> (fs filepath = Readable content (Some e) \<longrightarrow>
      load_data float_of fs filepath =
        Inl (Exception (''An error occurred while reading the dataset: '' @ e)))
   \<and> (fs filepath = Readable [] None \<longrightarrow> load_data float_of fs filepath = Inr ([], []))
   \<and> (fs filepath = Readable content None \<and> content \<noteq> [] \<longrightarrow>
      load_data float_of fs filepath =
        Inr (read_rows float_of (cells (hd (split_lines content))) (tl (split_lines content)),
             cells (hd (split_lines content))))
   \<and> ((\<exists>err. load_data float_of fs filepath = Inl err)
       \<or> (\<exists>whole. fs filepath = Readable whole None))"
proof -
  have 1: "fs filepath = Missing \<longrightarrow>
      load_data float_of fs filepath =
        Inl (FileNotFoundError (''Dataset file not found at: '' @ filepath))"
    by (simp add: load_data_def)
  have 2: "fs filepath = Unopenable e \<longrightarrow>
      load_data float_of fs filepath =
        Inl (Exception (''An error occurred while reading the dataset: '' @ e))"
    by (simp add: load_data_def)
  have 3: "fs filepath = Readable content (Some e) \<longrightarrow>
      load_data float_of fs filepath =
        Inl (Exception (''An error occurred while reading the dataset: '' @ e))"
    by (simp add: load_data_def read_file_failure)
  have 4: "fs filepath = Readable [] None \<longrightarrow> load_data float_of fs filepath = Inr ([], [])"
    by (simp add: load_data_def read_file_def)
  have 5: "fs filepath = Readable content None \<and> content \<noteq> [] \<longrightarrow>
      load_data float_of fs filepath =
        Inr (read_rows float_of (cells (hd (split_lines content))) (tl (split_lines content)),
             cells (hd (split_lines content)))"
    by (simp add: load_data_def read_file_whole)
  have 6: "(\<exists>err. load_data float_of fs filepath = Inl err)
       \<or> (\<exists>whole. fs filepath = Readable whole None)"
  proof (cases "fs filepath")
    case Missing
    then show ?thesis by (simp add: load_data_def)
  next
    case (Unopenable x)
    then show ?thesis by (simp add: load_data_def)
  next
    case (Readable whole failure)
    then show ?thesis
      by (cases failure) (simp_all add: load_data_def read_file_failure)
  qed
  show ?thesis using 1 2 3 4 5 6 by (intro conjI)
qed

text \<open>
  Claim C9, instance: a file system with an empty file, a file of a header and two rows,
  a directory that cannot be opened as a file, a file whose reading fails after the
  first row, and nothing else.
\<close>

theorem load_data_all_or_nothing_witness:
  "load_data decimal_float
     (\<lambda>p. if p = ''empty.csv'' then Readable [] None
           else if p = ''data.csv'' then Readable ''Age\<newline>30\<newline>41\<newline>'' None
           else if p = ''dir'' then Unopenable ''Is a directory''
           else if p = ''bad.csv'' then Readable ''Age\<newline>30\<newline>'' (Some ''invalid start byte'')
           else Missing) ''empty.csv'' = Inr ([], [])
   \<and> load_data decimal_float
     (\<lambda>p. if p = ''empty.csv'' then Readable [] None
           else if p = ''data.csv'' then Readable ''Age\<newline>30\<newline>41\<newline>'' None
           else if p = ''dir'' then Unopenable ''Is a directory''
           else if p = ''bad.csv'' then Readable ''Age\<newline>30\<newline>'' (Some ''invalid start byte'')
           else Missing) ''data.csv'' = Inr ([[(''Age'', PInt 30)], [(''Age'', PInt 41)]], [''Age''])
   \<and> load_data decimal_float
     (\<lambda>p. if p = ''empty.csv'' then Readable [] None
           else if p = ''data.csv'' then Readable ''Age\<newline>30\<newline>41\<newline>'' None
           else if p = ''dir'' then Unopenable ''Is a directory''
           else if p = ''bad.csv'' then Readable ''Age\<newline>30\<newline>'' (Some ''invalid start byte'')
           else Missing) ''dir''
       = Inl (Exception ''An error occurred while reading the dataset: Is a directory'')
   \<and> load_data decimal_float
     (\<lambda>p. if p = ''empty.csv'' then Readable [] None
           else if p = ''data.csv'' then Readable ''Age\<newline>30\<newline>41\<newline>'' None
           else if p = ''dir'' then Unopenable ''Is a directory''
           else if p = ''bad.csv'' then Readable ''Age\<newline>30\<newline>'' (Some ''invalid start byte'')
           else Missing) ''bad.csv''
       = Inl (Exception ''An error occurred while reading the dataset: invalid start byte'')
   \<and> load_data decimal_float
     (\<lambda>p. if p = ''empty.csv'' then Readable [] None
           else if p = ''data.csv'' then Readable ''Age\<newline>30\<newline>41\<newline>'' None
           else if p = ''dir'' then Unopenable ''Is a directory''
           else if p = ''bad.csv'' then Readable ''Age\<newline>30\<newline>'' (Some ''invalid start byte'')
           else Missing) ''none.csv''
       = Inl (FileNotFoundError ''Dataset file not found at: none.csv'')"
proof -
  define fs where "fs = (\<lambda>p. if p = ''empty.csv'' then Readable [] None
           else if p = ''data.csv'' then Readable ''Age\<newline>30\<newline>41\<newline>'' None
           else if p = ''dir'' then Unopenable ''Is a directory''
           else if p = ''bad.csv'' then Readable ''Age\<newline>30\<newline>'' (Some ''invalid start byte'')
           else Missing)"
  have f: "fs ''empty.csv'' = Readable [] None"
    "fs ''data.csv'' = Readable ''Age\<newline>30\<newline>41\<newline>'' None"
    "fs ''dir'' = Unopenable ''Is a directory''"
    "fs ''bad.csv'' = Readable ''Age\<newline>30\<newline>'' (Some ''invalid start byte'')"
    "fs ''none.csv'' = Missing"
    by (simp_all add: fs_def)
  note T = load_data_all_or_nothing [where fs = fs and float_of = decimal_float]
  have c1: "load_data decimal_float fs ''empty.csv'' = Inr ([], [])"
    using T [of "''empty.csv''", THEN conjunct2, THEN conjunct2, THEN conjunct2, THEN conjunct1]
      f(1) by simp
  have lines: "split_lines ''Age\<newline>30\<newline>41\<newline>'' = [''Age\<newline>'', ''30\<newline>'', ''41\<newline>'']"
    by simp
  have s: "strip ''Age\<newline>'' = ''Age''" "strip ''30\<newline>'' = ''30''" "strip ''41\<newline>'' = ''41''"
    "strip ''Age'' = ''Age''" "strip ''30'' = ''30''" "strip ''41'' = ''41''"
    by (simp_all add: strip_def is_space_def)
  have c: "cells ''Age\<newline>'' = [''Age'']" "cells ''30\<newline>'' = [''30'']" "cells ''41\<newline>'' = [''41'']"
    unfolding cells_def s by (simp_all add: s)
  have i: "py_int ''30'' = Some 30" "py_int ''41'' = Some 41"
    by (simp_all add: py_int_def nat_literal_def is_digit_def digits_value_def)
  have t: "convert_to_appropriate_type decimal_float ''30'' = PInt 30"
    "convert_to_appropriate_type decimal_float ''41'' = PInt 41"
    unfolding convert_to_appropriate_type_def Let_def s i by simp_all
  have rows: "read_rows decimal_float [''Age''] [''30\<newline>'', ''41\<newline>'']
                = [[(''Age'', PInt 30)], [(''Age'', PInt 41)]]"
    unfolding read_rows_eq by (simp add: s c make_record_zip t)
  have c2: "load_data decimal_float fs ''data.csv''
              = Inr ([[(''Age'', PInt 30)], [(''Age'', PInt 41)]], [''Age''])"
    using T [of "''data.csv''" _ "''Age\<newline>30\<newline>41\<newline>''", THEN conjunct2, THEN conjunct2,
             THEN conjunct2, THEN conjunct2, THEN conjunct1] f(2)
    by (simp add: lines c rows)
  have c3: "load_data decimal_float fs ''dir''
       = Inl (Exception ''An error occurred while reading the dataset: Is a directory'')"
    using T [of "''dir''" "''Is a directory''", THEN conjunct2, THEN conjunct1] f(3) by simp
  have c4: "load_data decimal_float fs ''bad.csv''
       = Inl (Exception ''An error occurred while reading the dataset: invalid start byte'')"
    using T [of "''bad.csv''" "''invalid start byte''" "''Age\<newline>30\<newline>''",
             THEN conjunct2, THEN conjunct2, THEN conjunct1] f(4) by simp
  have c5: "load_data decimal_float fs ''none.csv''
       = Inl (FileNotFoundError ''Dataset file not found at: none.csv'')"
    using T [of "''none.csv''", THEN conjunct1] f(5) by simp
  show ?thesis
    using c1 c2 c3 c4 c5 unfolding fs_def by (intro conjI)
qed

end
